theory Spec2Isabelle
  imports Main
begin

section \<open>Python values, characters and exceptions\<close>

text \<open>
  A Python \<open>str\<close> is a \<open>string\<close>: a list of characters, each standing for the code point
  of the same number (0 to 255). Python integers are unbounded, hence \<open>int\<close>. Floating
  point is not modelled: a float is a value of the type parameter \<open>'f\<close>, and the two
  builtins that touch it, \<open>str\<close> on a float and \<open>float()\<close> on a text, are parameters
  (\<open>fstr\<close>, \<open>pfloat\<close>) of the functions that call them. A dict is an association list
  in insertion order whose keys are distinct. \<open>PObj\<close> is any other object, carried as the
  text \<open>str()\<close> gives for it.
\<close>

datatype 'f pyval =
    PNone
  | PBool bool
  | PInt int
  | PFloat 'f
  | PStr string
  | PList "'f pyval list"
  | PDict "(string \<times> 'f pyval) list"
  | PObj string

text \<open>The exceptions of \<open>age_orm.exceptions\<close> and the builtin ones the modelled code can raise.\<close>

datatype error =
    ReError
  | EntityNotFoundError
  | MultipleResultsError
  | DetachedInstanceError
  | ImportError
  | IndexError
  | KeyError
  | ValueError
  | TypeError
  | ValidationError
  | TransportError string

definition bslash :: char where
  "bslash = CHR 0x5C"

definition dquote :: char where
  "dquote = CHR 0x22"

definition squote :: char where
  "squote = CHR 0x27"

definition newline :: char where
  "newline = CHR 0x0A"

definition code_of :: "char \<Rightarrow> nat" where
  "code_of c = of_char c"

definition is_digit :: "char \<Rightarrow> bool" where
  "is_digit c = (48 \<le> code_of c \<and> code_of c \<le> 57)"

definition digit_val :: "char \<Rightarrow> nat" where
  "digit_val c = code_of c - 48"

definition digit_char :: "nat \<Rightarrow> char" where
  "digit_char n = char_of (48 + n)"

text \<open>\<open>str(n)\<close> for an integer: decimal digits, a minus sign when negative.\<close>

fun str_nat :: "nat \<Rightarrow> string" where
  "str_nat n = (if n < 10 then [digit_char n] else str_nat (n div 10) @ [digit_char (n mod 10)])"

declare str_nat.simps [simp del]

definition str_int :: "int \<Rightarrow> string" where
  "str_int i = (if i < 0 then CHR ''-'' # str_nat (nat (- i)) else str_nat (nat i))"

text \<open>\<open>sep.join(items)\<close>.\<close>

fun py_join :: "string \<Rightarrow> string list \<Rightarrow> string" where
  "py_join sep [] = []"
| "py_join sep [x] = x"
| "py_join sep (x # y # ys) = x @ sep @ py_join sep (y # ys)"

text \<open>\<open>s.replace(a, r)\<close> for a needle \<open>a\<close> of one character.\<close>

definition replace_char :: "char \<Rightarrow> string \<Rightarrow> string \<Rightarrow> string" where
  "replace_char a r s = concat (map (\<lambda>c. if c = a then r else [c]) s)"

text \<open>Dict operations on association lists: \<open>d.get(k)\<close>, \<open>k in d\<close>, \<open>d[k] = v\<close>, \<open>d.pop(k)\<close>.\<close>

fun dict_get :: "('k \<times> 'v) list \<Rightarrow> 'k \<Rightarrow> 'v option" where
  "dict_get [] k = None"
| "dict_get ((k', v) # d) k = (if k' = k then Some v else dict_get d k)"

definition dict_has :: "('k \<times> 'v) list \<Rightarrow> 'k \<Rightarrow> bool" where
  "dict_has d k = (dict_get d k \<noteq> None)"

fun dict_set :: "'k \<Rightarrow> 'v \<Rightarrow> ('k \<times> 'v) list \<Rightarrow> ('k \<times> 'v) list" where
  "dict_set k v [] = [(k, v)]"
| "dict_set k v ((k', v') # d) = (if k' = k then (k, v) # d else (k', v') # dict_set k v d)"

fun dict_del :: "'k \<Rightarrow> ('k \<times> 'v) list \<Rightarrow> ('k \<times> 'v) list" where
  "dict_del k [] = []"
| "dict_del k ((k', v') # d) = (if k' = k then d else (k', v') # dict_del k d)"

text \<open>\<open>d.update(other)\<close>, and \<open>dict(pairs)\<close>: later pairs overwrite, first position kept.\<close>

fun dict_update :: "('k \<times> 'v) list \<Rightarrow> ('k \<times> 'v) list \<Rightarrow> ('k \<times> 'v) list" where
  "dict_update d [] = d"
| "dict_update d ((k, v) # kvs) = dict_update (dict_set k v d) kvs"

definition dict_of_pairs :: "('k \<times> 'v) list \<Rightarrow> ('k \<times> 'v) list" where
  "dict_of_pairs kvs = dict_update [] kvs"

section \<open>The value codec (\<open>utils/serialization.py\<close>)\<close>

text \<open>\<open>f"\\u{code:04x}"\<close>: lower-case hex, at least four digits.\<close>

definition hex_char :: "nat \<Rightarrow> char" where
  "hex_char n = (if n < 10 then char_of (48 + n) else char_of (87 + n))"

definition u_escape :: "nat \<Rightarrow> string" where
  "u_escape n = [bslash, CHR ''u'', hex_char (n div 4096 mod 16), hex_char (n div 256 mod 16),
                 hex_char (n div 16 mod 16), hex_char (n mod 16)]"

definition escape_control :: "char \<Rightarrow> string" where
  "escape_control c =
     (if code_of c < 0x20 \<and> c \<notin> set [CHR 0x0A, CHR 0x0D, CHR 0x09]
      then u_escape (code_of c) else [c])"

text \<open>\<open>escape_agtype_string\<close>: five \<open>replace\<close> passes, then the loop over the characters.\<close>

definition escape_agtype_string :: "string \<Rightarrow> string" where
  "escape_agtype_string s =
     (let s1 = replace_char bslash [bslash, bslash] s;
          s2 = replace_char dquote [bslash, dquote] s1;
          s3 = replace_char (CHR 0x0A) [bslash, CHR ''n''] s2;
          s4 = replace_char (CHR 0x0D) [bslash, CHR ''r''] s3;
          s5 = replace_char (CHR 0x09) [bslash, CHR ''t''] s4
      in concat (map escape_control s5))"

definition escape_sql_literal :: "string \<Rightarrow> string" where
  "escape_sql_literal s = replace_char squote [squote, squote] s"

fun to_agtype_value :: "('f \<Rightarrow> string) \<Rightarrow> 'f pyval \<Rightarrow> string"
  and agtype_items :: "('f \<Rightarrow> string) \<Rightarrow> 'f pyval list \<Rightarrow> string list"
  and agtype_pairs :: "('f \<Rightarrow> string) \<Rightarrow> (string \<times> 'f pyval) list \<Rightarrow> string list"
where
  "to_agtype_value fstr PNone = ''null''"
| "to_agtype_value fstr (PBool b) = (if b then ''true'' else ''false'')"
| "to_agtype_value fstr (PInt i) = str_int i"
| "to_agtype_value fstr (PFloat x) = fstr x"
| "to_agtype_value fstr (PStr s) = dquote # escape_agtype_string s @ [dquote]"
| "to_agtype_value fstr (PList vs) = ''['' @ py_join '', '' (agtype_items fstr vs) @ '']''"
| "to_agtype_value fstr (PDict kvs) = ''{'' @ py_join '', '' (agtype_pairs fstr kvs) @ ''}''"
| "to_agtype_value fstr (PObj s) = dquote # escape_agtype_string s @ [dquote]"
| "agtype_items fstr [] = []"
| "agtype_items fstr (v # vs) = to_agtype_value fstr v # agtype_items fstr vs"
| "agtype_pairs fstr [] = []"
| "agtype_pairs fstr ((k, v) # kvs) =
     (dquote # k @ dquote # '': '' @ to_agtype_value fstr v) # agtype_pairs fstr kvs"

definition to_agtype_properties :: "('f \<Rightarrow> string) \<Rightarrow> (string \<times> 'f pyval) list \<Rightarrow> string" where
  "to_agtype_properties fstr props = ''{'' @ py_join '', '' (agtype_pairs fstr props) @ ''}''"

fun format_cypher_value :: "('f \<Rightarrow> string) \<Rightarrow> 'f pyval \<Rightarrow> string"
  and cypher_items :: "('f \<Rightarrow> string) \<Rightarrow> 'f pyval list \<Rightarrow> string list"
  and cypher_pairs :: "('f \<Rightarrow> string) \<Rightarrow> (string \<times> 'f pyval) list \<Rightarrow> string list"
where
  "format_cypher_value fstr PNone = ''null''"
| "format_cypher_value fstr (PBool b) = (if b then ''true'' else ''false'')"
| "format_cypher_value fstr (PInt i) = str_int i"
| "format_cypher_value fstr (PFloat x) = fstr x"
| "format_cypher_value fstr (PStr s) =
     squote # replace_char squote [bslash, squote] (replace_char bslash [bslash, bslash] s) @ [squote]"
| "format_cypher_value fstr (PList vs) = ''['' @ py_join '', '' (cypher_items fstr vs) @ '']''"
| "format_cypher_value fstr (PDict kvs) = ''{'' @ py_join '', '' (cypher_pairs fstr kvs) @ ''}''"
| "format_cypher_value fstr (PObj s) =
     squote # replace_char squote [bslash, squote] (replace_char bslash [bslash, bslash] s) @ [squote]"
| "cypher_items fstr [] = []"
| "cypher_items fstr (v # vs) = format_cypher_value fstr v # cypher_items fstr vs"
| "cypher_pairs fstr [] = []"
| "cypher_pairs fstr ((k, v) # kvs) =
     (k @ '': '' @ format_cypher_value fstr v) # cypher_pairs fstr kvs"

section \<open>Substituting bind variables (\<open>substitute_cypher_params\<close>)\<close>

text \<open>
  The source compiles, for each key, the pattern \<open>\$key(?![a-zA-Z0-9_])\<close> (the key
  escaped, so it matches literally) and calls \<open>pattern.sub(literal, text)\<close>. A string given
  to \<open>sub\<close> as the replacement is a template: \<open>re\<close> processes its backslash escapes before
  any match is replaced. \<open>template_step\<close> is what \<open>re\<close>'s template parser does after a
  backslash, for a pattern without groups (Python 3.12, which the source's \<open>type\<close>
  statement needs): \<open>\g<0...0>\<close> is the whole match, \<open>\0\<close>, \<open>\0o\<close>, \<open>\0oo\<close> and \<open>\ooo\<close>
  are octal escapes, any other digit is a reference to a group that does not exist,
  \<open>\a \b \f \n \r \t \v \\\<close> are the characters they name, another ASCII letter is a bad
  escape, and a backslash before anything else stays with its character. Every failure of
  the template parser is the one error \<open>ReError\<close>.
\<close>

definition is_octal :: "char \<Rightarrow> bool" where
  "is_octal c = (48 \<le> code_of c \<and> code_of c \<le> 55)"

definition is_ascii_letter :: "char \<Rightarrow> bool" where
  "is_ascii_letter c = ((65 \<le> code_of c \<and> code_of c \<le> 90) \<or> (97 \<le> code_of c \<and> code_of c \<le> 122))"

text \<open>The class \<open>[a-zA-Z0-9_]\<close> of the lookahead.\<close>

definition is_ident_char :: "char \<Rightarrow> bool" where
  "is_ident_char c = (is_ascii_letter c \<or> is_digit c \<or> c = CHR ''_'')"

definition template_escape :: "char \<Rightarrow> char option" where
  "template_escape e =
     (if e = CHR ''a'' then Some (CHR 0x07)
      else if e = CHR ''b'' then Some (CHR 0x08)
      else if e = CHR ''f'' then Some (CHR 0x0C)
      else if e = CHR ''n'' then Some (CHR 0x0A)
      else if e = CHR ''r'' then Some (CHR 0x0D)
      else if e = CHR ''t'' then Some (CHR 0x09)
      else if e = CHR ''v'' then Some (CHR 0x0B)
      else if e = bslash then Some bslash
      else None)"

definition template_step :: "string \<Rightarrow> char \<Rightarrow> string \<Rightarrow> error + (string \<times> string)" where
  "template_step m e r =
     (if e = CHR ''g'' then
        (case r of
           [] \<Rightarrow> Inl ReError
         | lt # r1 \<Rightarrow>
             if lt \<noteq> CHR ''<'' then Inl ReError
             else let name = takeWhile (\<lambda>x. x \<noteq> CHR ''>'') r1;
                      rest = dropWhile (\<lambda>x. x \<noteq> CHR ''>'') r1
                  in if rest = [] \<or> name = [] \<or> \<not> list_all (\<lambda>x. x = CHR ''0'') name
                     then Inl ReError
                     else Inr (m, tl rest))
      else if e = CHR ''0'' then
        (case r of
           [] \<Rightarrow> Inr ([CHR 0x00], r)
         | d1 # r1 \<Rightarrow>
             if \<not> is_octal d1 then Inr ([CHR 0x00], r)
             else (case r1 of
                     [] \<Rightarrow> Inr ([char_of (digit_val d1)], r1)
                   | d2 # r2 \<Rightarrow>
                       if is_octal d2 then Inr ([char_of (digit_val d1 * 8 + digit_val d2)], r2)
                       else Inr ([char_of (digit_val d1)], r1)))
      else if is_digit e then
        (case r of
           d1 # d2 # r2 \<Rightarrow>
             if is_octal e \<and> is_octal d1 \<and> is_octal d2
             then (let n = digit_val e * 64 + digit_val d1 * 8 + digit_val d2
                   in if n > 255 then Inl ReError else Inr ([char_of n], r2))
             else Inl ReError
         | _ \<Rightarrow> Inl ReError)
      else (case template_escape e of
              Some ch \<Rightarrow> Inr ([ch], r)
            | None \<Rightarrow> if is_ascii_letter e then Inl ReError else Inr ([bslash, e], r)))"

lemma template_step_shorter:
  "template_step m e r = Inr (lit, rest) \<Longrightarrow> length rest \<le> length r"
proof -
  have drop_le: "length (tl (dropWhile P xs)) \<le> length xs" for P and xs :: string
    by (metis diff_le_self le_trans length_dropWhile_le length_tl)
  assume "template_step m e r = Inr (lit, rest)"
  then show ?thesis
    unfolding template_step_def Let_def
    by (auto split: if_splits list.splits option.splits intro: le_SucI drop_le)
qed

function expand_template :: "string \<Rightarrow> string \<Rightarrow> error + string" where
  "expand_template m [] = Inr []"
| "expand_template m (c # cs) =
     (if c \<noteq> bslash then
        (case expand_template m cs of Inl err \<Rightarrow> Inl err | Inr out \<Rightarrow> Inr (c # out))
      else
        (case cs of
           [] \<Rightarrow> Inl ReError
         | e # r \<Rightarrow>
             (case template_step m e r of
                Inl err \<Rightarrow> Inl err
              | Inr (lit, rest) \<Rightarrow>
                  (case expand_template m rest of
                     Inl err \<Rightarrow> Inl err
                   | Inr out \<Rightarrow> Inr (lit @ out)))))"
  by pat_completeness auto
termination
  by (relation "measure (\<lambda>(m, t). length t)") (auto dest: template_step_shorter)

text \<open>
  \<open>sub_param key rep text\<close>: every match of \<open>\$key(?![a-zA-Z0-9_])\<close> in \<open>text\<close>, found from
  left to right without overlap, is replaced by \<open>rep\<close>.
\<close>

definition matches_param :: "string \<Rightarrow> string \<Rightarrow> bool" where
  "matches_param key cs =
     (take (length key) cs = key \<and>
      (case drop (length key) cs of [] \<Rightarrow> True | d # _ \<Rightarrow> \<not> is_ident_char d))"

fun sub_param :: "string \<Rightarrow> string \<Rightarrow> string \<Rightarrow> string" where
  "sub_param key rep [] = []"
| "sub_param key rep (c # cs) =
     (if c = CHR ''$'' \<and> matches_param key cs
      then rep @ sub_param key rep (drop (length key) cs)
      else c # sub_param key rep cs)"

definition re_sub_param :: "string \<Rightarrow> string \<Rightarrow> string \<Rightarrow> error + string" where
  "re_sub_param key repl text =
     (case expand_template (CHR ''$'' # key) repl of
        Inl err \<Rightarrow> Inl err
      | Inr rep \<Rightarrow> Inr (sub_param key rep text))"

fun substitute_keys ::
  "('f \<Rightarrow> string) \<Rightarrow> (string \<times> 'f pyval) list \<Rightarrow> string list \<Rightarrow> string \<Rightarrow> error + string" where
  "substitute_keys fstr params [] result = Inr result"
| "substitute_keys fstr params (key # keys) result =
     (case dict_get params key of
        None \<Rightarrow> Inl KeyError
      | Some v \<Rightarrow>
          (case re_sub_param key (format_cypher_value fstr v) result of
             Inl err \<Rightarrow> Inl err
           | Inr result' \<Rightarrow> substitute_keys fstr params keys result'))"

text \<open>\<open>sorted(params.keys(), key=len, reverse=True)\<close>: a stable sort, longest keys first.\<close>

definition keys_longest_first :: "(string \<times> 'v) list \<Rightarrow> string list" where
  "keys_longest_first params = sort_key (\<lambda>k. - int (length k)) (map fst params)"

definition substitute_cypher_params ::
  "('f \<Rightarrow> string) \<Rightarrow> string \<Rightarrow> (string \<times> 'f pyval) list option \<Rightarrow> error + string" where
  "substitute_cypher_params fstr cypher params =
     (case params of
        None \<Rightarrow> Inr cypher
      | Some ps \<Rightarrow>
          if ps = [] then Inr cypher
          else substitute_keys fstr ps (keys_longest_first ps) cypher)"

section \<open>Decoding result cells (\<open>_parse_agtype_result\<close> in \<open>graph.py\<close>)\<close>

text \<open>\<open>str.strip()\<close>: the characters below 256 for which \<open>str.isspace\<close> holds.\<close>

definition is_py_space :: "char \<Rightarrow> bool" where
  "is_py_space c = ((9 \<le> code_of c \<and> code_of c \<le> 13) \<or> (28 \<le> code_of c \<and> code_of c \<le> 32)
                    \<or> code_of c = 133 \<or> code_of c = 160)"

definition py_strip :: "string \<Rightarrow> string" where
  "py_strip s = rev (dropWhile is_py_space (rev (dropWhile is_py_space s)))"

text \<open>\<open>\w\<close> of a \<open>str\<close> pattern: alphanumeric (as \<open>str.isalnum\<close>) or underscore.\<close>

definition is_word_char :: "char \<Rightarrow> bool" where
  "is_word_char c =
     (is_ident_char c \<or> code_of c \<in> set [0xAA, 0xB2, 0xB3, 0xB5, 0xB9, 0xBA, 0xBC, 0xBD, 0xBE]
      \<or> (0xC0 \<le> code_of c \<and> code_of c \<noteq> 0xD7 \<and> code_of c \<noteq> 0xF7))"

text \<open>
  \<open>re.sub(r'([\]}])::\w+', r'\1', s)\<close>: wherever a closing bracket or brace is followed by
  \<open>::\<close> and word characters, the bracket is kept and the tag removed; \<open>sub\<close> replaces every
  match, from left to right.
\<close>

definition tag_follows :: "string \<Rightarrow> bool" where
  "tag_follows cs =
     (case cs of a # b # w # _ \<Rightarrow> a = CHR '':'' \<and> b = CHR '':'' \<and> is_word_char w | _ \<Rightarrow> False)"

function strip_bracket_tags :: "string \<Rightarrow> string" where
  "strip_bracket_tags [] = []"
| "strip_bracket_tags (c # cs) =
     (if (c = CHR '']'' \<or> c = CHR ''}'') \<and> tag_follows cs
      then c # strip_bracket_tags (dropWhile is_word_char (drop 2 cs))
      else c # strip_bracket_tags cs)"
  by pat_completeness auto
termination
  by (relation "measure length")
     (auto intro!: le_imp_less_Suc intro: le_trans [OF length_dropWhile_le])

text \<open>
  \<open>re.sub(r'::\w+$', '', s)\<close>: \<open>$\<close> (no MULTILINE flag) holds at the end of the text and
  before a newline that ends it, so at most one match exists: the leftmost \<open>::\<close> whose whole
  run of word characters reaches that point.
\<close>

definition at_text_end :: "string \<Rightarrow> bool" where
  "at_text_end cs = (cs = [] \<or> cs = [newline])"

definition trailing_tag :: "string \<Rightarrow> bool" where
  "trailing_tag cs =
     (case cs of
        b # w # r \<Rightarrow> b = CHR '':'' \<and> is_word_char w \<and> at_text_end (dropWhile is_word_char r)
      | _ \<Rightarrow> False)"

fun strip_trailing_tag :: "string \<Rightarrow> string" where
  "strip_trailing_tag [] = []"
| "strip_trailing_tag (c # cs) =
     (if c = CHR '':'' \<and> trailing_tag cs then dropWhile is_word_char (tl cs)
      else c # strip_trailing_tag cs)"

definition strip_agtype_suffixes :: "string \<Rightarrow> string" where
  "strip_agtype_suffixes val =
     py_strip (strip_trailing_tag (strip_bracket_tags (py_strip val)))"

text \<open>
  \<open>int(text)\<close>: surrounding whitespace, an optional sign, decimal digits with single
  underscores between them.
\<close>

definition is_int_space :: "char \<Rightarrow> bool" where
  "is_int_space c = ((9 \<le> code_of c \<and> code_of c \<le> 13) \<or> code_of c = 32
                     \<or> code_of c = 133 \<or> code_of c = 160)"

fun int_digits :: "nat \<Rightarrow> string \<Rightarrow> nat option" where
  "int_digits acc [] = Some acc"
| "int_digits acc (c # cs) =
     (if is_digit c then int_digits (acc * 10 + digit_val c) cs
      else if c = CHR ''_'' then
        (case cs of
           [] \<Rightarrow> None
         | d # r \<Rightarrow> if is_digit d then int_digits (acc * 10 + digit_val d) r else None)
      else None)"

definition py_digits :: "string \<Rightarrow> nat option" where
  "py_digits s = (case s of [] \<Rightarrow> None
                  | c # cs \<Rightarrow> if is_digit c then int_digits (digit_val c) cs else None)"

definition py_int :: "string \<Rightarrow> int option" where
  "py_int s =
     (case rev (dropWhile is_int_space (rev (dropWhile is_int_space s))) of
        [] \<Rightarrow> None
      | c # cs \<Rightarrow>
          if c = CHR ''-'' then map_option (\<lambda>n. - int n) (py_digits cs)
          else if c = CHR ''+'' then map_option int (py_digits cs)
          else map_option int (py_digits (c # cs)))"

subsection \<open>\<open>json.loads\<close>\<close>

text \<open>
  The decoder of Python's \<open>json\<close> module with its defaults (strict strings, \<open>int\<close> and
  \<open>float\<close> for numbers, the constants \<open>NaN\<close>, \<open>Infinity\<close> and \<open>-Infinity\<close>). \<open>None\<close> is
  \<open>JSONDecodeError\<close>. A \<open>\uXXXX\<close> escape above \<open>\u00ff\<close> names a character this model's
  strings do not have and is not decoded. The recursion of the scanner is bounded by fuel;
  \<open>json_loads\<close> gives it more than any text can use, two units for each character.
\<close>

definition is_json_ws :: "char \<Rightarrow> bool" where
  "is_json_ws c = (c = CHR '' '' \<or> c = CHR 0x09 \<or> c = CHR 0x0A \<or> c = CHR 0x0D)"

definition skip_ws :: "string \<Rightarrow> string" where
  "skip_ws cs = dropWhile is_json_ws cs"

definition hex_val :: "char \<Rightarrow> nat option" where
  "hex_val c =
     (if is_digit c then Some (code_of c - 48)
      else if 97 \<le> code_of c \<and> code_of c \<le> 102 then Some (code_of c - 87)
      else if 65 \<le> code_of c \<and> code_of c \<le> 70 then Some (code_of c - 55)
      else None)"

definition json_backslash :: "char \<Rightarrow> char option" where
  "json_backslash e =
     (if e = dquote then Some dquote
      else if e = bslash then Some bslash
      else if e = CHR ''/'' then Some (CHR ''/'')
      else if e = CHR ''b'' then Some (CHR 0x08)
      else if e = CHR ''f'' then Some (CHR 0x0C)
      else if e = CHR ''n'' then Some (CHR 0x0A)
      else if e = CHR ''r'' then Some (CHR 0x0D)
      else if e = CHR ''t'' then Some (CHR 0x09)
      else None)"

definition decode_uXXXX :: "char \<Rightarrow> char \<Rightarrow> char \<Rightarrow> char \<Rightarrow> char option" where
  "decode_uXXXX h1 h2 h3 h4 =
     (case (hex_val h1, hex_val h2, hex_val h3, hex_val h4) of
        (Some a, Some b, Some c, Some d) \<Rightarrow>
          (let n = ((a * 16 + b) * 16 + c) * 16 + d in if n < 256 then Some (char_of n) else None)
      | _ \<Rightarrow> None)"

text \<open>\<open>scanstring\<close>, from just after the opening quote: the decoded string and the rest.\<close>

fun scanstring :: "string \<Rightarrow> (string \<times> string) option" where
  "scanstring [] = None"
| "scanstring (c # cs) =
     (if c = dquote then Some ([], cs)
      else if c = bslash then
        (case cs of
           [] \<Rightarrow> None
         | e # r \<Rightarrow>
             if e = CHR ''u'' then
               (case r of
                  h1 # h2 # h3 # h4 # r' \<Rightarrow>
                    (case decode_uXXXX h1 h2 h3 h4 of
                       None \<Rightarrow> None
                     | Some ch \<Rightarrow>
                         (case scanstring r' of
                            None \<Rightarrow> None
                          | Some (s, rest) \<Rightarrow> Some (ch # s, rest)))
                | _ \<Rightarrow> None)
             else
               (case json_backslash e of
                  None \<Rightarrow> None
                | Some ch \<Rightarrow>
                    (case scanstring r of
                       None \<Rightarrow> None
                     | Some (s, rest) \<Rightarrow> Some (ch # s, rest))))
      else if code_of c < 0x20 then None
      else (case scanstring cs of
              None \<Rightarrow> None
            | Some (s, rest) \<Rightarrow> Some (c # s, rest)))"

text \<open>
  \<open>NUMBER_RE\<close>, \<open>(-?(?:0|[1-9]\d*))(\.\d+)?([eE][-+]?\d+)?\<close>, matched at the head of the text:
  the three groups (empty when absent) and the rest.
\<close>

definition scan_integer :: "string \<Rightarrow> (string \<times> string) option" where
  "scan_integer cs =
     (let sign = (case cs of c # _ \<Rightarrow> if c = CHR ''-'' then [c] else [] | [] \<Rightarrow> []);
          r0 = drop (length sign) cs
      in case r0 of
           [] \<Rightarrow> None
         | d # r1 \<Rightarrow>
             if d = CHR ''0'' then Some (sign @ [d], r1)
             else if is_digit d then Some (sign @ d # takeWhile is_digit r1, dropWhile is_digit r1)
             else None)"

definition scan_frac :: "string \<Rightarrow> string \<times> string" where
  "scan_frac cs =
     (case cs of
        p # d # r \<Rightarrow>
          if p = CHR ''.'' \<and> is_digit d
          then (p # d # takeWhile is_digit r, dropWhile is_digit r)
          else ([], cs)
      | _ \<Rightarrow> ([], cs))"

definition scan_exp :: "string \<Rightarrow> string \<times> string" where
  "scan_exp cs =
     (case cs of
        [] \<Rightarrow> ([], cs)
      | e # r \<Rightarrow>
          if e = CHR ''e'' \<or> e = CHR ''E'' then
            (let sign = (case r of c # _ \<Rightarrow> if c = CHR ''-'' \<or> c = CHR ''+'' then [c] else [] | [] \<Rightarrow> []);
                 r1 = drop (length sign) r
             in if takeWhile is_digit r1 = [] then ([], cs)
                else (e # sign @ takeWhile is_digit r1, dropWhile is_digit r1))
          else ([], cs))"

definition scan_number :: "string \<Rightarrow> ((string \<times> string \<times> string) \<times> string) option" where
  "scan_number cs =
     (case scan_integer cs of
        None \<Rightarrow> None
      | Some (i, r1) \<Rightarrow>
          (let (f, r2) = scan_frac r1; (e, r3) = scan_exp r2 in Some ((i, f, e), r3)))"

text \<open>\<open>int(integer)\<close> for the first group of \<open>NUMBER_RE\<close>.\<close>

definition int_of_literal :: "string \<Rightarrow> int" where
  "int_of_literal i =
     (case i of
        [] \<Rightarrow> 0
      | c # cs \<Rightarrow>
          if c = CHR ''-'' then - int (foldl (\<lambda>a d. a * 10 + digit_val d) 0 cs)
          else int (foldl (\<lambda>a d. a * 10 + digit_val d) 0 (c # cs)))"

fun json_value :: "(string \<Rightarrow> 'f option) \<Rightarrow> nat \<Rightarrow> string \<Rightarrow> ('f pyval \<times> string) option"
  and json_array :: "(string \<Rightarrow> 'f option) \<Rightarrow> nat \<Rightarrow> string \<Rightarrow> ('f pyval list \<times> string) option"
  and json_object ::
    "(string \<Rightarrow> 'f option) \<Rightarrow> nat \<Rightarrow> string \<Rightarrow> ((string \<times> 'f pyval) list \<times> string) option"
where
  "json_value pf 0 cs = None"
| "json_value pf (Suc n) cs =
     (case cs of
        [] \<Rightarrow> None
      | c # r \<Rightarrow>
          if c = dquote then
            (case scanstring r of None \<Rightarrow> None | Some (s, rest) \<Rightarrow> Some (PStr s, rest))
          else if c = CHR ''{'' then
            (case skip_ws r of
               [] \<Rightarrow> None
             | c1 # r1 \<Rightarrow>
                 if c1 = CHR ''}'' then Some (PDict [], r1)
                 else if c1 = dquote then
                   (case json_object pf n r1 of
                      None \<Rightarrow> None
                    | Some (pairs, rest) \<Rightarrow> Some (PDict (dict_of_pairs pairs), rest))
                 else None)
          else if c = CHR ''['' then
            (case skip_ws r of
               [] \<Rightarrow> None
             | c1 # r1 \<Rightarrow>
                 if c1 = CHR '']'' then Some (PList [], r1)
                 else (case json_array pf n (c1 # r1) of
                         None \<Rightarrow> None
                       | Some (vs, rest) \<Rightarrow> Some (PList vs, rest)))
          else if take 4 cs = ''null'' then Some (PNone, drop 4 cs)
          else if take 4 cs = ''true'' then Some (PBool True, drop 4 cs)
          else if take 5 cs = ''false'' then Some (PBool False, drop 5 cs)
          else
            (case scan_number cs of
               Some ((i, f, e), rest) \<Rightarrow>
                 if f \<noteq> [] \<or> e \<noteq> [] then
                   (case pf (i @ f @ e) of None \<Rightarrow> None | Some x \<Rightarrow> Some (PFloat x, rest))
                 else Some (PInt (int_of_literal i), rest)
             | None \<Rightarrow>
                 if take 3 cs = ''NaN'' then
                   (case pf ''nan'' of None \<Rightarrow> None | Some x \<Rightarrow> Some (PFloat x, drop 3 cs))
                 else if take 8 cs = ''Infinity'' then
                   (case pf ''inf'' of None \<Rightarrow> None | Some x \<Rightarrow> Some (PFloat x, drop 8 cs))
                 else if take 9 cs = ''-Infinity'' then
                   (case pf ''-inf'' of None \<Rightarrow> None | Some x \<Rightarrow> Some (PFloat x, drop 9 cs))
                 else None))"
| "json_array pf 0 cs = None"
| "json_array pf (Suc n) cs =
     (case json_value pf n cs of
        None \<Rightarrow> None
      | Some (v, rest) \<Rightarrow>
          (case skip_ws rest of
             [] \<Rightarrow> None
           | c # r \<Rightarrow>
               if c = CHR '']'' then Some ([v], r)
               else if c = CHR '','' then
                 (case json_array pf n (skip_ws r) of
                    None \<Rightarrow> None
                  | Some (vs, rest') \<Rightarrow> Some (v # vs, rest'))
               else None))"
| "json_object pf 0 cs = None"
| "json_object pf (Suc n) cs =
     (case scanstring cs of
        None \<Rightarrow> None
      | Some (k, r0) \<Rightarrow>
          (case skip_ws r0 of
             [] \<Rightarrow> None
           | c # r1 \<Rightarrow>
               if c \<noteq> CHR '':'' then None
               else
                 (case json_value pf n (skip_ws r1) of
                    None \<Rightarrow> None
                  | Some (v, r2) \<Rightarrow>
                      (case skip_ws r2 of
                         [] \<Rightarrow> None
                       | c2 # r3 \<Rightarrow>
                           if c2 = CHR ''}'' then Some ([(k, v)], r3)
                           else if c2 = CHR '','' then
                             (case skip_ws r3 of
                                [] \<Rightarrow> None
                              | q # r4 \<Rightarrow>
                                  if q = dquote then
                                    (case json_object pf n r4 of
                                       None \<Rightarrow> None
                                     | Some (kvs, rest) \<Rightarrow> Some ((k, v) # kvs, rest))
                                  else None)
                           else None))))"

definition json_loads :: "(string \<Rightarrow> 'f option) \<Rightarrow> string \<Rightarrow> 'f pyval option" where
  "json_loads pf s =
     (case json_value pf (2 * length s + 2) (skip_ws s) of
        None \<Rightarrow> None
      | Some (v, rest) \<Rightarrow> if skip_ws rest = [] then Some v else None)"

subsection \<open>The cell decoder\<close>

text \<open>
  A raw cell is \<open>None\<close>, a text, a dict, a number or boolean, or another object (carried
  as its \<open>str()\<close>). The result is always a dict.
\<close>

datatype 'f cell = CNone | CStr string | CDict "(string \<times> 'f pyval) list" | CNum "'f pyval" | CObj string

text \<open>\<open>parsed["graph_id"] = parsed.pop("id")\<close>, when both \<open>id\<close> and \<open>properties\<close> are keys.\<close>

definition normalize_record :: "(string \<times> 'f pyval) list \<Rightarrow> (string \<times> 'f pyval) list" where
  "normalize_record d =
     (if dict_has d ''id'' \<and> dict_has d ''properties'' then
        (case dict_get d ''id'' of
           None \<Rightarrow> d
         | Some v \<Rightarrow> dict_set ''graph_id'' v (dict_del ''id'' d))
      else d)"

definition normalize_item :: "'f pyval \<Rightarrow> 'f pyval" where
  "normalize_item v = (case v of PDict d \<Rightarrow> PDict (normalize_record d) | _ \<Rightarrow> v)"

definition json_gate :: "string \<Rightarrow> bool" where
  "json_gate s =
     ((case s of [] \<Rightarrow> False | c # _ \<Rightarrow> c = CHR ''{'' \<or> c = CHR ''['' \<or> c = dquote)
      \<or> s = ''null'' \<or> s = ''true'' \<or> s = ''false'')"

definition parse_agtype_text :: "(string \<Rightarrow> 'f option) \<Rightarrow> string \<Rightarrow> (string \<times> 'f pyval) list" where
  "parse_agtype_text pf val =
     (let val_str = strip_agtype_suffixes val in
      case (if json_gate val_str then json_loads pf val_str else None) of
        Some (PDict d) \<Rightarrow> normalize_record d
      | Some (PList items) \<Rightarrow> [(''value'', PList (map normalize_item items))]
      | Some v \<Rightarrow> [(''value'', v)]
      | None \<Rightarrow>
          (case py_int val_str of
             Some n \<Rightarrow> [(''value'', PInt n)]
           | None \<Rightarrow>
               (case pf val_str of
                  Some x \<Rightarrow> [(''value'', PFloat x)]
                | None \<Rightarrow> [(''raw'', PStr val_str)])))"

definition parse_agtype_result ::
  "(string \<Rightarrow> 'f option) \<Rightarrow> 'f cell \<Rightarrow> string \<Rightarrow> (string \<times> 'f pyval) list" where
  "parse_agtype_result pf val return_type =
     (case val of
        CNone \<Rightarrow> []
      | CStr s \<Rightarrow> parse_agtype_text pf s
      | CDict d \<Rightarrow> d
      | CNum v \<Rightarrow> [(''value'', v)]
      | CObj s \<Rightarrow> [(''raw'', PStr s)])"

section \<open>Executing a statement (\<open>Graph._execute_cypher\<close>, \<open>Graph._parse_results\<close>)\<close>

text \<open>
  The connection pool is outside the repository: \<open>rt_transport sql w\<close> stands for
  \<open>conn.execute(sql).fetchall()\<close> on the database in state \<open>w\<close>, giving the rows (or the
  exception) and the state afterwards. The record also carries the two float builtins.
\<close>

record ('f, 'w) runtime =
  rt_fstr :: "'f \<Rightarrow> string"
  rt_pfloat :: "string \<Rightarrow> 'f option"
  rt_transport :: "string \<Rightarrow> 'w \<Rightarrow> (error + 'f cell list list) \<times> 'w"

text \<open>A \<open>Graph\<close> object: its name and its \<open>Database\<close> (a handle, \<open>None\<close> when absent).\<close>

record graph =
  g_name :: string
  g_db :: "nat option"

fun parse_columns ::
  "(string \<Rightarrow> 'f option) \<Rightarrow> nat \<Rightarrow> 'f cell list \<Rightarrow> (string \<times> 'f pyval) list \<Rightarrow> (string \<times> 'f pyval) list" where
  "parse_columns pf i [] parsed_row = parsed_row"
| "parse_columns pf i (v # vs) parsed_row =
     parse_columns pf (Suc i) vs
       (dict_set (''col_'' @ str_nat i) (PDict (parse_agtype_result pf v ''raw'')) parsed_row)"

fun parse_results ::
  "(string \<Rightarrow> 'f option) \<Rightarrow> 'f cell list list \<Rightarrow> string \<Rightarrow> nat \<Rightarrow> error + (string \<times> 'f pyval) list list" where
  "parse_results pf [] return_type num_columns = Inr []"
| "parse_results pf (row # rows) return_type num_columns =
     (if num_columns = 1 then
        (case row of
           [] \<Rightarrow> Inl IndexError
         | v # _ \<Rightarrow>
             (case parse_results pf rows return_type num_columns of
                Inl err \<Rightarrow> Inl err
              | Inr results \<Rightarrow> Inr (parse_agtype_result pf v return_type # results)))
      else
        (case parse_results pf rows return_type num_columns of
           Inl err \<Rightarrow> Inl err
         | Inr results \<Rightarrow> Inr (parse_columns pf 0 row [] # results)))"

definition columns_given :: "string list option \<Rightarrow> bool" where
  "columns_given columns = (case columns of None \<Rightarrow> False | Some cs \<Rightarrow> cs \<noteq> [])"

definition column_list :: "string list option \<Rightarrow> string list" where
  "column_list columns = (case columns of None \<Rightarrow> [] | Some cs \<Rightarrow> cs)"

definition column_clause :: "string list option \<Rightarrow> string" where
  "column_clause columns =
     (if columns_given columns then py_join '', '' (map (\<lambda>c. c @ '' agtype'') (column_list columns))
      else ''result agtype'')"

definition cypher_sql :: "string \<Rightarrow> string \<Rightarrow> string list option \<Rightarrow> string" where
  "cypher_sql name resolved_cypher columns =
     ''SELECT * FROM cypher('' @ [squote] @ name @ [squote] @ '', $$ '' @ resolved_cypher
       @ '' $$) AS ('' @ column_clause columns @ '')''"

definition execute_cypher ::
  "('f, 'w) runtime \<Rightarrow> graph \<Rightarrow> string \<Rightarrow> (string \<times> 'f pyval) list option \<Rightarrow> string list option
     \<Rightarrow> string \<Rightarrow> 'w \<Rightarrow> (error + (string \<times> 'f pyval) list list) \<times> 'w" where
  "execute_cypher rt g cypher params columns return_type w =
     (case substitute_cypher_params (rt_fstr rt) cypher params of
        Inl err \<Rightarrow> (Inl err, w)
      | Inr resolved_cypher \<Rightarrow>
          (case rt_transport rt (cypher_sql (g_name g) resolved_cypher columns) w of
             (Inl err, w') \<Rightarrow> (Inl err, w')
           | (Inr rows, w') \<Rightarrow>
               (parse_results (rt_pfloat rt) rows return_type
                  (if columns_given columns then length (column_list columns) else 1), w')))"

section \<open>Entities (\<open>models/base.py\<close>, \<open>models/edge.py\<close>, \<open>references.py\<close>)\<close>

text \<open>
  A class object is a value of the type parameter \<open>'c\<close>; \<open>class_def\<close> gives what the code
  reads of it. \<open>mc_fields\<close> is pydantic's \<open>model_fields\<close>: each field name with the
  \<open>Relationship\<close> that is its default, if its default is one. \<open>mc_validate\<close> is pydantic's
  own \<open>__init__\<close> (outside the repository): the attribute values it stores, or \<open>None\<close> when
  it raises.
\<close>

record 'c relationship =
  rel_target :: "'c + string"
  rel_edge_label :: string
  rel_direction :: string
  rel_uselist :: bool
  rel_cache :: bool
  rel_depth :: int

record ('f, 'c) model_class =
  mc_name :: string
  mc_label :: "string option"
  mc_fields :: "(string \<times> 'c relationship option) list"
  mc_validate :: "(string \<times> 'f pyval) list \<Rightarrow> (string \<times> 'f pyval) list option"
  mc_is_vertex :: bool
  mc_is_edge :: bool

record ('f, 'c) classes =
  class_def :: "'c \<Rightarrow> ('f, 'c) model_class"
  locate :: "string \<Rightarrow> 'c option"
  label_registry :: "(string \<times> 'c) list"
  is_subclass :: "'c \<Rightarrow> 'c \<Rightarrow> bool"

text \<open>
  An instance: its class, pydantic's attribute values, and the private slots
  \<open>_age_fields\<close>, \<open>_age_refs\<close> (the names; the field infos are in the class),
  \<open>_age_refs_vals\<close>, \<open>_age_graph_id\<close>, \<open>_age_label\<close>, \<open>_age_db\<close>, \<open>_age_graph\<close>,
  \<open>_age_dirty\<close>, and an edge's \<open>_age_start_id\<close> and \<open>_age_end_id\<close>. A cached relationship
  is a list of instances (\<open>uselist\<close>) or one instance or \<open>None\<close>.
\<close>

datatype ('f, 'c) entity = Entity
  (e_class: 'c)
  (e_attrs: "(string \<times> 'f pyval) list")
  (age_fields: "string list")
  (age_refs: "(string \<times> 'c relationship) list")
  (age_refs_vals: "(string \<times> (('f, 'c) entity list + ('f, 'c) entity option)) list")
  (age_graph_id: "int option")
  (age_label: "string option")
  (age_db: "nat option")
  (age_graph: "graph option")
  (age_dirty: "string set")
  (age_start_id: "int option")
  (age_end_id: "int option")

definition set_attrs :: "(string \<times> 'f pyval) list \<Rightarrow> ('f, 'c) entity \<Rightarrow> ('f, 'c) entity" where
  "set_attrs x e = (case e of Entity c a f r rv gi l d g dy si ei \<Rightarrow> Entity c x f r rv gi l d g dy si ei)"

definition set_refs_vals ::
  "(string \<times> (('f, 'c) entity list + ('f, 'c) entity option)) list \<Rightarrow> ('f, 'c) entity \<Rightarrow> ('f, 'c) entity" where
  "set_refs_vals x e = (case e of Entity c a f r rv gi l d g dy si ei \<Rightarrow> Entity c a f r x gi l d g dy si ei)"

definition set_graph_id :: "int option \<Rightarrow> ('f, 'c) entity \<Rightarrow> ('f, 'c) entity" where
  "set_graph_id x e = (case e of Entity c a f r rv gi l d g dy si ei \<Rightarrow> Entity c a f r rv x l d g dy si ei)"

definition set_label :: "string option \<Rightarrow> ('f, 'c) entity \<Rightarrow> ('f, 'c) entity" where
  "set_label x e = (case e of Entity c a f r rv gi l d g dy si ei \<Rightarrow> Entity c a f r rv gi x d g dy si ei)"

definition set_db :: "nat option \<Rightarrow> ('f, 'c) entity \<Rightarrow> ('f, 'c) entity" where
  "set_db x e = (case e of Entity c a f r rv gi l d g dy si ei \<Rightarrow> Entity c a f r rv gi l x g dy si ei)"

definition set_graph :: "graph option \<Rightarrow> ('f, 'c) entity \<Rightarrow> ('f, 'c) entity" where
  "set_graph x e = (case e of Entity c a f r rv gi l d g dy si ei \<Rightarrow> Entity c a f r rv gi l d x dy si ei)"

definition set_dirty :: "string set \<Rightarrow> ('f, 'c) entity \<Rightarrow> ('f, 'c) entity" where
  "set_dirty x e = (case e of Entity c a f r rv gi l d g dy si ei \<Rightarrow> Entity c a f r rv gi l d g x si ei)"

definition set_start_id :: "int option \<Rightarrow> ('f, 'c) entity \<Rightarrow> ('f, 'c) entity" where
  "set_start_id x e = (case e of Entity c a f r rv gi l d g dy si ei \<Rightarrow> Entity c a f r rv gi l d g dy x ei)"

definition set_end_id :: "int option \<Rightarrow> ('f, 'c) entity \<Rightarrow> ('f, 'c) entity" where
  "set_end_id x e = (case e of Entity c a f r rv gi l d g dy si ei \<Rightarrow> Entity c a f r rv gi l d g dy si x)"

text \<open>
  The keyword arguments of a constructor call: the field values, and the private ones the
  constructors read with \<open>kwargs.get\<close> (\<open>_graph_id\<close>, \<open>_label\<close>, \<open>_db\<close>, \<open>_graph\<close>,
  \<open>_start_id\<close>, \<open>_end_id\<close>).
\<close>

record 'f kwargs =
  kw_fields :: "(string \<times> 'f pyval) list"
  kw_graph_id :: "int option"
  kw_label :: "string option"
  kw_db :: "nat option"
  kw_graph :: "graph option"
  kw_start_id :: "int option"
  kw_end_id :: "int option"

definition data_fields :: "(string \<times> 'c relationship option) list \<Rightarrow> string list" where
  "data_fields mf = map fst (filter (\<lambda>(fname, rel). rel = None) mf)"

definition relationship_fields :: "(string \<times> 'c relationship option) list \<Rightarrow> (string \<times> 'c relationship) list" where
  "relationship_fields mf = concat (map (\<lambda>(fname, rel). case rel of None \<Rightarrow> [] | Some r \<Rightarrow> [(fname, r)]) mf)"

text \<open>\<open>a or b\<close> on optional texts: the first that is neither \<open>None\<close> nor empty.\<close>

definition truthy :: "string option \<Rightarrow> bool" where
  "truthy x = (case x of None \<Rightarrow> False | Some s \<Rightarrow> s \<noteq> [])"

definition class_label :: "('f, 'c) model_class \<Rightarrow> string" where
  "class_label mc = (case mc_label mc of None \<Rightarrow> mc_name mc | Some l \<Rightarrow> if l \<noteq> [] then l else mc_name mc)"

text \<open>\<open>AgeModel.__init__\<close>, followed by \<open>Edge.__init__\<close> for an edge class.\<close>

definition new_entity :: "('f, 'c) classes \<Rightarrow> 'c \<Rightarrow> 'f kwargs \<Rightarrow> error + ('f, 'c) entity" where
  "new_entity cl cls kw =
     (let mc = class_def cl cls in
      case mc_validate mc (kw_fields kw) of
        None \<Rightarrow> Inl ValidationError
      | Some attrs \<Rightarrow>
          (let fnames = data_fields (mc_fields mc);
               refs = relationship_fields (mc_fields mc);
               label = (if truthy (kw_label kw) then kw_label kw else Some (class_label mc));
               dirty = (if kw_db kw \<noteq> None then {} else set fnames)
           in Inr (Entity cls attrs fnames refs [] (kw_graph_id kw) label (kw_db kw) (kw_graph kw) dirty
                     (if mc_is_edge mc then kw_start_id kw else None)
                     (if mc_is_edge mc then kw_end_id kw else None))))"

text \<open>\<open>entity._dirty.clear()\<close>, the clearing of the dirty set after a write (\<open>mark_clean\<close>).\<close>

definition mark_clean :: "('f, 'c) entity \<Rightarrow> ('f, 'c) entity" where
  "mark_clean e = set_dirty {} e"

text \<open>
  \<open>AgeModel.__setattr__\<close> for a plain value. Pydantic's own \<open>__setattr__\<close> stores the value of
  a field, refuses a public name that is no field, and stores a name with a leading
  underscore on the instance. The properties with setters (\<open>_dirty\<close>, \<open>_graph_id\<close>, \<open>_db\<close>,
  \<open>_graph\<close>, \<open>_label\<close>, \<open>_start_id\<close>, \<open>_end_id\<close>) take values that are not plain ones: the
  callers' assignments to them are the \<open>set_\<close> functions above.
\<close>

definition INTERNAL_ATTRS :: "string list" where
  "INTERNAL_ATTRS = [''_age_graph_id'', ''_age_label'', ''_age_dirty'', ''_age_db'', ''_age_graph'',
     ''_age_fields'', ''_age_refs'', ''_age_refs_vals'', ''_age_relations'']"

definition starts_with :: "string \<Rightarrow> string \<Rightarrow> bool" where
  "starts_with p s = (take (length p) s = p)"

definition pydantic_setattr ::
  "('f, 'c) classes \<Rightarrow> ('f, 'c) entity \<Rightarrow> string \<Rightarrow> 'f pyval \<Rightarrow> error + ('f, 'c) entity" where
  "pydantic_setattr cl e attr v =
     (if starts_with ''_'' attr then Inr (set_attrs (dict_set attr v (e_attrs e)) e)
      else if dict_has (mc_fields (class_def cl (e_class e))) attr
        then Inr (set_attrs (dict_set attr v (e_attrs e)) e)
      else Inl ValueError)"

definition setattr_entity ::
  "('f, 'c) classes \<Rightarrow> ('f, 'c) entity \<Rightarrow> string \<Rightarrow> 'f pyval \<Rightarrow> error + ('f, 'c) entity" where
  "setattr_entity cl e attr v =
     (if attr \<in> set INTERNAL_ATTRS then Inr (set_attrs (dict_set attr v (e_attrs e)) e)
      else
        (case pydantic_setattr cl e attr v of
           Inl err \<Rightarrow> Inl err
         | Inr e' \<Rightarrow>
             if starts_with ''_'' attr \<or> attr = ''model_config'' then Inr e'
             else if dict_has (mc_fields (class_def cl (e_class e'))) attr \<and> \<not> dict_has (age_refs e') attr
               then Inr (set_dirty (insert attr (age_dirty e')) e')
             else Inr e'))"

text \<open>
  \<open>dict_to_model\<close> (\<open>utils/serialization.py\<close>). Graph ids are integers and labels are texts:
  \<open>as_int\<close> and \<open>as_str\<close> read them from a decoded record, and give \<open>None\<close> for any other
  value. The properties are taken to hold none of the private keyword names.
\<close>

definition as_int :: "'f pyval option \<Rightarrow> int option" where
  "as_int v = (case v of Some (PInt i) \<Rightarrow> Some i | _ \<Rightarrow> None)"

definition as_str :: "'f pyval option \<Rightarrow> string option" where
  "as_str v = (case v of Some (PStr s) \<Rightarrow> Some s | _ \<Rightarrow> None)"

definition plain_kwargs :: "(string \<times> 'f pyval) list \<Rightarrow> 'f kwargs" where
  "plain_kwargs props =
     \<lparr>kw_fields = props, kw_graph_id = None, kw_label = None, kw_db = None, kw_graph = None,
      kw_start_id = None, kw_end_id = None\<rparr>"

definition dict_to_model ::
  "('f, 'c) classes \<Rightarrow> (string \<times> 'f pyval) list \<Rightarrow> 'c \<Rightarrow> nat option \<Rightarrow> graph option
     \<Rightarrow> error + ('f, 'c) entity" where
  "dict_to_model cl data model_class db graph =
     (case (case dict_get data ''properties'' of
              None \<Rightarrow> Inr data
            | Some (PDict props) \<Rightarrow> Inr props
            | Some _ \<Rightarrow> Inl TypeError) of
        Inl err \<Rightarrow> Inl err
      | Inr props \<Rightarrow>
          (case new_entity cl model_class (plain_kwargs props) of
             Inl err \<Rightarrow> Inl err
           | Inr instance \<Rightarrow>
               (let i1 = set_graph_id (as_int (dict_get data ''graph_id'')) instance;
                    i2 = set_label (case dict_get data ''label'' of
                                      None \<Rightarrow> mc_label (class_def cl model_class)
                                    | Some l \<Rightarrow> as_str (Some l)) i1;
                    i3 = set_dirty {} i2;
                    i4 = set_db db i3;
                    i5 = set_graph graph i4;
                    i6 = (if dict_has data ''start_id''
                          then set_start_id (as_int (dict_get data ''start_id'')) i5 else i5);
                    i7 = (if dict_has data ''end_id''
                          then set_end_id (as_int (dict_get data ''end_id'')) i6 else i6)
                in Inr i7)))"

fun dicts_to_models ::
  "('f, 'c) classes \<Rightarrow> (string \<times> 'f pyval) list list \<Rightarrow> 'c \<Rightarrow> nat option \<Rightarrow> graph option
     \<Rightarrow> error + ('f, 'c) entity list" where
  "dicts_to_models cl [] model_class db graph = Inr []"
| "dicts_to_models cl (r # rs) model_class db graph =
     (case dict_to_model cl r model_class db graph of
        Inl err \<Rightarrow> Inl err
      | Inr m \<Rightarrow>
          (case dicts_to_models cl rs model_class db graph of
             Inl err \<Rightarrow> Inl err
           | Inr ms \<Rightarrow> Inr (m # ms)))"

text \<open>
  \<open>AgeModel.__getattribute__\<close>. \<open>Ordinary item\<close> is whatever Python's ordinary attribute
  lookup gives for the name; \<open>Related\<close> is the value of a relationship. Loading mutates the
  instance's cache and talks to the database, so the instance and the database state are
  returned with the result.
\<close>

datatype ('f, 'c) attr_result =
    Ordinary string
  | Related "('f, 'c) entity list + ('f, 'c) entity option"

definition resolve_target_class :: "('f, 'c) classes \<Rightarrow> 'c relationship \<Rightarrow> error + 'c" where
  "resolve_target_class cl rel =
     (case rel_target rel of
        Inl c \<Rightarrow> Inr c
      | Inr name \<Rightarrow> (case locate cl name of None \<Rightarrow> Inl ImportError | Some c \<Rightarrow> Inr c))"

definition str_graph_id :: "int option \<Rightarrow> string" where
  "str_graph_id gid = (case gid of None \<Rightarrow> ''None'' | Some i \<Rightarrow> str_int i)"

definition relationship_cypher :: "'c relationship \<Rightarrow> string \<Rightarrow> int option \<Rightarrow> string" where
  "relationship_cypher rel target_label graph_id =
     (let dir_left = (if rel_direction rel = ''inbound'' then ''<'' else []);
          dir_right = (if rel_direction rel = ''outbound'' then ''>'' else []);
          depth_str = (if rel_depth rel > 1 then ''*1..'' @ str_int (rel_depth rel) else [])
      in ''MATCH (n)'' @ dir_left @ ''-[:'' @ rel_edge_label rel @ depth_str @ '']-'' @ dir_right
           @ ''(m:'' @ target_label @ '') WHERE id(n) = '' @ str_graph_id graph_id @ '' RETURN m'')"

definition load_relationship ::
  "('f, 'w) runtime \<Rightarrow> ('f, 'c) classes \<Rightarrow> ('f, 'c) entity \<Rightarrow> string \<Rightarrow> 'c relationship \<Rightarrow> nat option
     \<Rightarrow> graph \<Rightarrow> 'w \<Rightarrow> (error + ('f, 'c) attr_result) \<times> ('f, 'c) entity \<times> 'w" where
  "load_relationship rt cl e item rel db graph w =
     (case resolve_target_class cl rel of
        Inl err \<Rightarrow> (Inl err, e, w)
      | Inr target_class \<Rightarrow>
          (case execute_cypher rt graph
                  (relationship_cypher rel (class_label (class_def cl target_class)) (age_graph_id e))
                  None None ''vertex'' w of
             (Inl err, w') \<Rightarrow> (Inl err, e, w')
           | (Inr results, w') \<Rightarrow>
               (case dicts_to_models cl results target_class db (Some graph) of
                  Inl err \<Rightarrow> (Inl err, e, w')
                | Inr models \<Rightarrow>
                    (let r_val = (if rel_uselist rel then Inl models
                                  else Inr (case models of [] \<Rightarrow> None | m # _ \<Rightarrow> Some m));
                         e' = (if rel_cache rel
                               then set_refs_vals (dict_set item r_val (age_refs_vals e)) e else e)
                     in (Inr (Related r_val), e', w')))))"

definition get_attribute ::
  "('f, 'w) runtime \<Rightarrow> ('f, 'c) classes \<Rightarrow> ('f, 'c) entity \<Rightarrow> string \<Rightarrow> 'w
     \<Rightarrow> (error + ('f, 'c) attr_result) \<times> ('f, 'c) entity \<times> 'w" where
  "get_attribute rt cl e item w =
     (if item \<in> set INTERNAL_ATTRS then (Inr (Ordinary item), e, w)
      else if starts_with ''_'' item \<or> starts_with ''model_'' item then (Inr (Ordinary item), e, w)
      else
        (case dict_get (age_refs e) item of
           None \<Rightarrow> (Inr (Ordinary item), e, w)
         | Some rel \<Rightarrow>
             (case dict_get (age_refs_vals e) item of
                Some cached \<Rightarrow> (Inr (Related cached), e, w)
              | None \<Rightarrow>
                  (case (age_db e, age_graph e) of
                     (Some db, Some graph) \<Rightarrow> load_relationship rt cl e item rel (Some db) graph w
                   | _ \<Rightarrow> (Inl DetachedInstanceError, e, w)))))"

section \<open>Events (\<open>event.py\<close>) and the graph operations the claims are about (\<open>graph.py\<close>)\<close>

text \<open>
  \<open>_registrars\<close>: for each event, the registered classes with their handlers. A handler is
  user code; here it is a function on the instance it is given.
\<close>

type_synonym ('f, 'c) registrars =
  "(string \<times> ('c \<times> (('f, 'c) entity \<Rightarrow> ('f, 'c) entity) list) list) list"

definition dispatch ::
  "('f, 'c) classes \<Rightarrow> ('f, 'c) registrars \<Rightarrow> ('f, 'c) entity \<Rightarrow> string \<Rightarrow> ('f, 'c) entity" where
  "dispatch cl regs target event =
     fold (\<lambda>(target_class, fns) t.
             if is_subclass cl (e_class t) target_class then fold (\<lambda>fn t'. fn t') fns t else t)
          (case dict_get regs event of None \<Rightarrow> [] | Some by_event \<Rightarrow> by_event)
          target"

definition delete_cypher :: "('f, 'c) classes \<Rightarrow> ('f, 'c) entity \<Rightarrow> string" where
  "delete_cypher cl entity =
     (if mc_is_vertex (class_def cl (e_class entity))
      then ''MATCH (n) WHERE id(n) = '' @ str_graph_id (age_graph_id entity) @ '' DETACH DELETE n''
      else ''MATCH ()-[e]->() WHERE id(e) = '' @ str_graph_id (age_graph_id entity) @ '' DELETE e'')"

text \<open>\<open>Graph.delete\<close>: the exception if any, the instance as it is afterwards, the database.\<close>

definition graph_delete ::
  "('f, 'w) runtime \<Rightarrow> ('f, 'c) classes \<Rightarrow> ('f, 'c) registrars \<Rightarrow> graph \<Rightarrow> ('f, 'c) entity \<Rightarrow> 'w
     \<Rightarrow> error option \<times> ('f, 'c) entity \<times> 'w" where
  "graph_delete rt cl regs g entity w =
     (if age_graph_id entity = None then (Some EntityNotFoundError, entity, w)
      else
        (let e1 = dispatch cl regs entity ''pre_delete'' in
         case execute_cypher rt g (delete_cypher cl e1) None None ''raw'' w of
           (Inl err, w') \<Rightarrow> (Some err, e1, w')
         | (Inr results, w') \<Rightarrow>
             (None, dispatch cl regs (set_graph None (set_db None (set_graph_id None e1))) ''post_delete'', w')))"

text \<open>
  \<open>Graph._hydrate_result\<close>: a decoded value stays as it is (\<open>HData\<close>), becomes an instance
  (\<open>HModel\<close>), or, for a row of columns, a dict of hydrated values (\<open>HRow\<close>).
\<close>

datatype ('f, 'c) hydrated =
    HData "'f pyval"
  | HModel "('f, 'c) entity"
  | HRow "(string \<times> ('f, 'c) hydrated) list"

fun hydrate_result :: "('f, 'c) classes \<Rightarrow> graph \<Rightarrow> 'f pyval \<Rightarrow> error + ('f, 'c) hydrated"
  and hydrate_columns ::
    "('f, 'c) classes \<Rightarrow> graph \<Rightarrow> (string \<times> 'f pyval) list \<Rightarrow> error + (string \<times> ('f, 'c) hydrated) list"
where
  "hydrate_result cl g (PDict data) =
     (if list_ex (\<lambda>(k, v). starts_with ''col_'' k) data then
        (case hydrate_columns cl g data of Inl err \<Rightarrow> Inl err | Inr row \<Rightarrow> Inr (HRow row))
      else if \<not> dict_has data ''label'' \<or> \<not> dict_has data ''properties'' then Inr (HData (PDict data))
      else
        (case dict_get data ''label'' of
           Some (PStr label) \<Rightarrow>
             (case dict_get (label_registry cl) label of
                None \<Rightarrow> Inr (HData (PDict data))
              | Some model_class \<Rightarrow>
                  (case dict_to_model cl data model_class (g_db g) (Some g) of
                     Inl err \<Rightarrow> Inl err
                   | Inr m \<Rightarrow> Inr (HModel m)))
         | Some (PList _) \<Rightarrow> Inl TypeError
         | Some (PDict _) \<Rightarrow> Inl TypeError
         | _ \<Rightarrow> Inr (HData (PDict data))))"
| "hydrate_result cl g PNone = Inr (HData PNone)"
| "hydrate_result cl g (PBool b) = Inr (HData (PBool b))"
| "hydrate_result cl g (PInt i) = Inr (HData (PInt i))"
| "hydrate_result cl g (PFloat x) = Inr (HData (PFloat x))"
| "hydrate_result cl g (PStr s) = Inr (HData (PStr s))"
| "hydrate_result cl g (PList vs) = Inr (HData (PList vs))"
| "hydrate_result cl g (PObj s) = Inr (HData (PObj s))"
| "hydrate_columns cl g [] = Inr []"
| "hydrate_columns cl g ((k, v) # kvs) =
     (case hydrate_result cl g v of
        Inl err \<Rightarrow> Inl err
      | Inr h \<Rightarrow>
          (case hydrate_columns cl g kvs of
             Inl err \<Rightarrow> Inl err
           | Inr row \<Rightarrow> Inr ((k, h) # row)))"

fun hydrate_results ::
  "('f, 'c) classes \<Rightarrow> graph \<Rightarrow> (string \<times> 'f pyval) list list \<Rightarrow> error + ('f, 'c) hydrated list" where
  "hydrate_results cl g [] = Inr []"
| "hydrate_results cl g (r # rs) =
     (case hydrate_result cl g (PDict r) of
        Inl err \<Rightarrow> Inl err
      | Inr h \<Rightarrow>
          (case hydrate_results cl g rs of
             Inl err \<Rightarrow> Inl err
           | Inr hs \<Rightarrow> Inr (h # hs)))"

text \<open>\<open>Graph.cypher(statement, columns, return_type, **params)\<close>.\<close>

definition graph_cypher ::
  "('f, 'w) runtime \<Rightarrow> ('f, 'c) classes \<Rightarrow> graph \<Rightarrow> string \<Rightarrow> string list option \<Rightarrow> string
     \<Rightarrow> (string \<times> 'f pyval) list \<Rightarrow> 'w \<Rightarrow> (error + ('f, 'c) hydrated list) \<times> 'w" where
  "graph_cypher rt cl g statement columns return_type params w =
     (case execute_cypher rt g statement (Some params) columns return_type w of
        (Inl err, w') \<Rightarrow> (Inl err, w')
      | (Inr results, w') \<Rightarrow> (hydrate_results cl g results, w'))"

section \<open>The query builder (\<open>query/builder.py\<close>)\<close>

text \<open>
  The state of a \<open>Query\<close>. A filter is its condition with its joiner (\<open>None\<close> for the
  first); the builder methods mutate the query and return it.
\<close>

record ('f, 'c) query =
  q_model_class :: 'c
  q_graph :: graph
  q_label :: string
  q_filters :: "(string \<times> string option) list"
  q_sort_columns :: "string list"
  q_limit :: "int option"
  q_skip :: int
  q_return_fields :: "string list option"
  q_bind_vars :: "(string \<times> 'f pyval) list"

definition new_query :: "('f, 'c) classes \<Rightarrow> 'c \<Rightarrow> graph \<Rightarrow> ('f, 'c) query" where
  "new_query cl model_class g =
     \<lparr>q_model_class = model_class, q_graph = g, q_label = class_label (class_def cl model_class),
      q_filters = [], q_sort_columns = [], q_limit = None, q_skip = 0, q_return_fields = None,
      q_bind_vars = []\<rparr>"

definition next_joiner :: "('f, 'c) query \<Rightarrow> bool \<Rightarrow> string option" where
  "next_joiner q or_flag = (if q_filters q \<noteq> [] then Some (if or_flag then ''OR'' else ''AND'') else None)"

definition filter_query ::
  "('f, 'c) query \<Rightarrow> string \<Rightarrow> bool \<Rightarrow> (string \<times> 'f pyval) list \<Rightarrow> ('f, 'c) query" where
  "filter_query q condition or_flag kwargs =
     q\<lparr>q_filters := q_filters q @ [(condition, next_joiner q or_flag)],
       q_bind_vars := dict_update (q_bind_vars q) kwargs\<rparr>"

definition filter_by :: "('f, 'c) query \<Rightarrow> bool \<Rightarrow> (string \<times> 'f pyval) list \<Rightarrow> ('f, 'c) query" where
  "filter_by q or_flag kwargs =
     (if kwargs = [] then q
      else
        (let conditions = map (\<lambda>(k, v). ''n.'' @ k @ '' = $'' @ k) kwargs;
             condition = py_join '' AND '' conditions;
             condition' = (if length conditions > 1 then ''('' @ condition @ '')'' else condition)
         in q\<lparr>q_filters := q_filters q @ [(condition', next_joiner q or_flag)],
              q_bind_vars := dict_update (q_bind_vars q) kwargs\<rparr>))"

definition sort_query :: "('f, 'c) query \<Rightarrow> string \<Rightarrow> ('f, 'c) query" where
  "sort_query q field = q\<lparr>q_sort_columns := q_sort_columns q @ [field]\<rparr>"

definition limit_query :: "('f, 'c) query \<Rightarrow> int \<Rightarrow> int \<Rightarrow> ('f, 'c) query" where
  "limit_query q count skip = q\<lparr>q_limit := Some count, q_skip := skip\<rparr>"

definition returns_query :: "('f, 'c) query \<Rightarrow> string list \<Rightarrow> ('f, 'c) query" where
  "returns_query q flds = q\<lparr>q_return_fields := Some flds\<rparr>"

definition where_part :: "string \<times> string option \<Rightarrow> string" where
  "where_part fc = (case snd fc of None \<Rightarrow> fst fc | Some joiner \<Rightarrow> joiner @ '' '' @ fst fc)"

definition build_match_where :: "('f \<Rightarrow> string) \<Rightarrow> ('f, 'c) query \<Rightarrow> error + string" where
  "build_match_where fstr q =
     (let cypher = ''MATCH (n:'' @ q_label q @ '')'' in
      if q_filters q \<noteq> [] then
        (case substitute_cypher_params fstr (py_join '' '' (map where_part (q_filters q)))
                (Some (q_bind_vars q)) of
           Inl err \<Rightarrow> Inl err
         | Inr where_clause \<Rightarrow> Inr (cypher @ newline # ''WHERE '' @ where_clause))
      else Inr cypher)"

definition build_cypher :: "('f \<Rightarrow> string) \<Rightarrow> ('f, 'c) query \<Rightarrow> error + string" where
  "build_cypher fstr q =
     (case build_match_where fstr q of
        Inl err \<Rightarrow> Inl err
      | Inr cypher0 \<Rightarrow>
          (let cypher1 = (case q_return_fields q of
                            None \<Rightarrow> cypher0 @ newline # ''RETURN n''
                          | Some flds \<Rightarrow>
                              if flds \<noteq> [] then cypher0 @ newline # ''RETURN '' @ py_join '', '' flds
                              else cypher0 @ newline # ''RETURN n'');
               cypher2 = (if q_sort_columns q \<noteq> []
                          then cypher1 @ newline # ''ORDER BY '' @ py_join '', '' (q_sort_columns q)
                          else cypher1);
               cypher3 = (if q_skip q > 0 then cypher2 @ newline # ''SKIP '' @ str_int (q_skip q)
                          else cypher2);
               cypher4 = (case q_limit q of
                            None \<Rightarrow> cypher3
                          | Some l \<Rightarrow> cypher3 @ newline # ''LIMIT '' @ str_int l)
           in Inr cypher4))"

text \<open>\<open>Query.all\<close> (through \<open>iterator\<close>): the hydrated matches, or the exception.\<close>

definition query_all ::
  "('f, 'w) runtime \<Rightarrow> ('f, 'c) classes \<Rightarrow> ('f, 'c) query \<Rightarrow> 'w \<Rightarrow> (error + ('f, 'c) entity list) \<times> 'w" where
  "query_all rt cl q w =
     (case build_cypher (rt_fstr rt) q of
        Inl err \<Rightarrow> (Inl err, w)
      | Inr cypher \<Rightarrow>
          (case execute_cypher rt (q_graph q) cypher None None ''vertex'' w of
             (Inl err, w') \<Rightarrow> (Inl err, w')
           | (Inr results, w') \<Rightarrow>
               (dicts_to_models cl results (q_model_class q) (g_db (q_graph q)) (Some (q_graph q)), w')))"

definition query_one ::
  "('f, 'w) runtime \<Rightarrow> ('f, 'c) classes \<Rightarrow> ('f, 'c) query \<Rightarrow> 'w \<Rightarrow> (error + ('f, 'c) entity) \<times> 'w" where
  "query_one rt cl q w =
     (case query_all rt cl q w of
        (Inl err, w') \<Rightarrow> (Inl err, w')
      | (Inr results, w') \<Rightarrow>
          if length results = 0 then (Inl EntityNotFoundError, w')
          else if length results > 1 then (Inl MultipleResultsError, w')
          else (Inr (hd results), w'))"



section \<open>The specification's statements, as definitions\<close>

text \<open>
  The clauses the specification names for a built query, each with the condition under
  which it is present.
\<close>

definition match_clause :: "('f, 'c) query \<Rightarrow> string" where
  "match_clause q = ''MATCH (n:'' @ q_label q @ '')''"

definition return_clause :: "('f, 'c) query \<Rightarrow> string" where
  "return_clause q =
     newline # ''RETURN '' @
       (case q_return_fields q of
          None \<Rightarrow> ''n''
        | Some flds \<Rightarrow> if flds = [] then ''n'' else py_join '', '' flds)"

definition order_clause :: "('f, 'c) query \<Rightarrow> string" where
  "order_clause q =
     (if q_sort_columns q = [] then [] else newline # ''ORDER BY '' @ py_join '', '' (q_sort_columns q))"

definition skip_clause :: "('f, 'c) query \<Rightarrow> string" where
  "skip_clause q = (if q_skip q > 0 then newline # ''SKIP '' @ str_int (q_skip q) else [])"

definition limit_clause :: "('f, 'c) query \<Rightarrow> string" where
  "limit_clause q = (case q_limit q of None \<Rightarrow> [] | Some l \<Rightarrow> newline # ''LIMIT '' @ str_int l)"

definition where_text :: "('f \<Rightarrow> string) \<Rightarrow> ('f, 'c) query \<Rightarrow> error + string" where
  "where_text fstr q =
     substitute_cypher_params fstr (py_join '' '' (map where_part (q_filters q))) (Some (q_bind_vars q))"


text \<open>
  What pydantic guarantees of a class: its field names are distinct, none starts with an
  underscore and none is \<open>model_config\<close>. And what \<open>__init__\<close> establishes of an instance:
  its two private name tables are those of its class.
\<close>

definition well_formed_class :: "('f, 'c) model_class \<Rightarrow> bool" where
  "well_formed_class mc =
     (distinct (map fst (mc_fields mc)) \<and>
      list_all (\<lambda>name. \<not> starts_with ''_'' name \<and> name \<noteq> ''model_config'') (map fst (mc_fields mc)))"

definition instance_of_class :: "('f, 'c) classes \<Rightarrow> ('f, 'c) entity \<Rightarrow> bool" where
  "instance_of_class cl e =
     (age_fields e = data_fields (mc_fields (class_def cl (e_class e))) \<and>
      age_refs e = relationship_fields (mc_fields (class_def cl (e_class e))))"

text \<open>
  The decoder as the specification words it: one trailing \<open>::tag\<close> is removed (the last
  \<open>::\<close> followed by word characters up to the end of the text), then the attempts are
  made in order. \<open>decoded_json\<close> is what the code makes of a parsed JSON value.
\<close>

definition strip_one_suffix :: "string \<Rightarrow> string" where
  "strip_one_suffix s =
     (let tag = takeWhile is_word_char (rev s); front = dropWhile is_word_char (rev s)
      in if tag \<noteq> [] \<and> take 2 front = ''::'' then rev (drop 2 front) else s)"

definition decoded_json :: "'f pyval \<Rightarrow> (string \<times> 'f pyval) list" where
  "decoded_json j =
     (case j of
        PDict d \<Rightarrow> normalize_record d
      | PList items \<Rightarrow> [(''value'', PList (map normalize_item items))]
      | _ \<Rightarrow> [(''value'', j)])"

definition decode_attempts :: "(string \<Rightarrow> 'f option) \<Rightarrow> string \<Rightarrow> (string \<times> 'f pyval) list" where
  "decode_attempts pf t =
     (case (if json_gate t then json_loads pf t else None) of
        Some j \<Rightarrow> decoded_json j
      | None \<Rightarrow>
          (case py_int t of
             Some n \<Rightarrow> [(''value'', PInt n)]
           | None \<Rightarrow> (case pf t of Some x \<Rightarrow> [(''value'', PFloat x)] | None \<Rightarrow> [(''raw'', PStr t)])))"

definition decode_as_specified :: "(string \<Rightarrow> 'f option) \<Rightarrow> string \<Rightarrow> (string \<times> 'f pyval) list" where
  "decode_as_specified pf val = decode_attempts pf (py_strip (strip_one_suffix (py_strip val)))"

text \<open>A text has a bracket tag when a closing bracket or brace in it is followed by a tag.\<close>

fun has_bracket_tag :: "string \<Rightarrow> bool" where
  "has_bracket_tag [] = False"
| "has_bracket_tag (c # cs) = (((c = CHR '']'' \<or> c = CHR ''}'') \<and> tag_follows cs) \<or> has_bracket_tag cs)"

text \<open>
  The values whose encoding the decoder reads back. A string must not contain a closing
  bracket or brace followed by \<open>::\<close> and a word character (the decoder would take it
  for a tag). A key is written between quotes without escaping, so it must need none;
  and the keys of a map are distinct, as in every Python dict. A float must be one whose
  text is a JSON number with a fraction or an exponent that \<open>float()\<close> reads back: what
  Python's \<open>repr\<close> gives for every finite float. \<open>PObj\<close> is not a supported value.
\<close>

definition float_char :: "char \<Rightarrow> bool" where
  "float_char c = (is_digit c \<or> c = CHR ''-'' \<or> c = CHR ''+'' \<or> c = CHR ''.'' \<or> c = CHR ''e''
                   \<or> c = CHR ''E'')"

definition json_float_text :: "string \<Rightarrow> bool" where
  "json_float_text s =
     (list_all float_char s \<and>
      (case scan_number s of
         Some ((i, f, e), r) \<Rightarrow> r = [] \<and> (f \<noteq> [] \<or> e \<noteq> [])
       | None \<Rightarrow> False))"

definition plain_key :: "string \<Rightarrow> bool" where
  "plain_key k =
     (list_all (\<lambda>c. c \<noteq> dquote \<and> c \<noteq> bslash \<and> \<not> code_of c < 0x20) k \<and> \<not> has_bracket_tag k)"

fun plain_value :: "('f \<Rightarrow> string) \<Rightarrow> (string \<Rightarrow> 'f option) \<Rightarrow> 'f pyval \<Rightarrow> bool"
  and plain_items :: "('f \<Rightarrow> string) \<Rightarrow> (string \<Rightarrow> 'f option) \<Rightarrow> 'f pyval list \<Rightarrow> bool"
  and plain_pairs :: "('f \<Rightarrow> string) \<Rightarrow> (string \<Rightarrow> 'f option) \<Rightarrow> (string \<times> 'f pyval) list \<Rightarrow> bool"
where
  "plain_value fstr pf PNone = True"
| "plain_value fstr pf (PBool b) = True"
| "plain_value fstr pf (PInt i) = True"
| "plain_value fstr pf (PFloat x) = (json_float_text (fstr x) \<and> pf (fstr x) = Some x)"
| "plain_value fstr pf (PStr s) = (\<not> has_bracket_tag s)"
| "plain_value fstr pf (PList vs) = plain_items fstr pf vs"
| "plain_value fstr pf (PDict kvs) = (distinct (map fst kvs) \<and> plain_pairs fstr pf kvs)"
| "plain_value fstr pf (PObj s) = False"
| "plain_items fstr pf [] = True"
| "plain_items fstr pf (v # vs) = (plain_value fstr pf v \<and> plain_items fstr pf vs)"
| "plain_pairs fstr pf [] = True"
| "plain_pairs fstr pf ((k, v) # kvs) = (plain_key k \<and> plain_value fstr pf v \<and> plain_pairs fstr pf kvs)"

text \<open>
  The decoder renames the key \<open>id\<close> of a map that also has the key \<open>properties\<close>, at the
  top and in the items of a list at the top. A value is unnormalized when no such map
  occurs there.
\<close>

definition is_record :: "(string \<times> 'f pyval) list \<Rightarrow> bool" where
  "is_record d = (dict_has d ''id'' \<and> dict_has d ''properties'')"

definition unnormalized :: "'f pyval \<Rightarrow> bool" where
  "unnormalized v =
     (case v of
        PDict d \<Rightarrow> \<not> is_record d
      | PList items \<Rightarrow> list_all (\<lambda>i. case i of PDict d \<Rightarrow> \<not> is_record d | _ \<Rightarrow> True) items
      | _ \<Rightarrow> True)"

text \<open>The result the specification expects: a map as it is, anything else under \<open>value\<close>.\<close>

definition wrapped :: "'f pyval \<Rightarrow> (string \<times> 'f pyval) list" where
  "wrapped v = (case v of PDict d \<Rightarrow> d | _ \<Rightarrow> [(''value'', v)])"

text \<open>
  Notions of the proofs: what \<open>escape_agtype_string\<close> makes of one character, the
  characters at which a JSON number ends, and the characters an encoding can start with.
\<close>

definition agtype_esc :: "char \<Rightarrow> string" where
  "agtype_esc c =
     (if c = bslash then [bslash, bslash]
      else if c = dquote then [bslash, dquote]
      else if c = CHR 0x0A then [bslash, CHR ''n'']
      else if c = CHR 0x0D then [bslash, CHR ''r'']
      else if c = CHR 0x09 then [bslash, CHR ''t'']
      else if code_of c < 0x20 then u_escape (code_of c)
      else [c])"

definition value_stop :: "string \<Rightarrow> bool" where
  "value_stop rest = (case rest of [] \<Rightarrow> True | c # _ \<Rightarrow> c = CHR '','' \<or> c = CHR '']'' \<or> c = CHR ''}'')"

definition starter :: "char \<Rightarrow> bool" where
  "starter c = (c = dquote \<or> c = CHR ''['' \<or> c = CHR ''{'' \<or> c = CHR ''n'' \<or> c = CHR ''t''
                \<or> c = CHR ''f'' \<or> c = CHR ''-'' \<or> is_digit c)"

section \<open>A small world to run the model in\<close>

text \<open>
  The class \<open>PersonWithRels\<close> of the test suite (two fields and the \<open>friends\<close>
  relationship), as the only class; a graph; and transports that answer as a database
  would. No float occurs, so the float type is \<open>unit\<close> and \<open>float()\<close> accepts nothing.
\<close>

definition person_class :: "(unit, nat) model_class" where
  "person_class =
     \<lparr>mc_name = ''PersonWithRels'', mc_label = Some ''PersonRel'',
      mc_fields = [(''name'', None), (''age'', None),
                   (''friends'', Some \<lparr>rel_target = Inr ''tests.conftest.PersonWithRels'',
                       rel_edge_label = ''KNOWS'', rel_direction = ''outbound'', rel_uselist = True,
                       rel_cache = True, rel_depth = 1\<rparr>)],
      mc_validate = (\<lambda>kws. if dict_has kws ''name'' \<and> dict_has kws ''age'' then Some kws else None),
      mc_is_vertex = True, mc_is_edge = False\<rparr>"

definition demo_classes :: "(unit, nat) classes" where
  "demo_classes =
     \<lparr>class_def = (\<lambda>c. person_class),
      locate = (\<lambda>name. if name = ''tests.conftest.PersonWithRels'' then Some 0 else None),
      label_registry = [(''PersonRel'', 0)],
      is_subclass = (\<lambda>a b. a = b)\<rparr>"

definition demo_graph :: graph where
  "demo_graph = \<lparr>g_name = ''g'', g_db = Some 1\<rparr>"

text \<open>\<open>PersonWithRels(name="Test", age=25)\<close>, as constructed.\<close>

definition demo_person :: "(unit, nat) entity" where
  "demo_person =
     Entity 0 [(''name'', PStr ''Test''), (''age'', PInt 25)] [''name'', ''age'']
       (relationship_fields (mc_fields person_class)) [] None (Some ''PersonRel'') None None
       {''name'', ''age''} None None"

text \<open>The same person after its friends were loaded and cached and it was then deleted.\<close>

definition cached_detached_person :: "(unit, nat) entity" where
  "cached_detached_person = set_refs_vals [(''friends'', Inl [])] (mark_clean demo_person)"

text \<open>A persisted person: graph id 7, bound, \<open>age\<close> modified, friends cached.\<close>

definition persisted_person :: "(unit, nat) entity" where
  "persisted_person =
     set_refs_vals [(''friends'', Inl [])]
       (set_graph (Some demo_graph) (set_db (Some 1) (set_graph_id (Some 7)
          (set_dirty {''age''} demo_person))))"

text \<open>A transport that logs each statement and returns no row.\<close>

definition demo_runtime :: "(unit, string list) runtime" where
  "demo_runtime =
     \<lparr>rt_fstr = (\<lambda>x. ''nan''), rt_pfloat = (\<lambda>s. None),
      rt_transport = (\<lambda>sql w. (Inr [], w @ [sql]))\<rparr>"


text \<open>A database that answers every statement with the one row \<open>("w1", 5)\<close>, as texts.\<close>

definition word_count_runtime :: "(unit, unit) runtime" where
  "word_count_runtime =
     \<lparr>rt_fstr = (\<lambda>x. ''nan''), rt_pfloat = (\<lambda>s. None),
      rt_transport = (\<lambda>sql w. (Inr [[CStr (dquote # ''w1'' @ [dquote]), CStr ''5'']], w))\<rparr>"

text \<open>A \<open>float()\<close> that accepts nothing, and one that accepts the text \<open>1.5\<close> only.\<close>

definition no_float :: "string \<Rightarrow> unit option" where
  "no_float s = None"

definition demo_float :: "string \<Rightarrow> unit option" where
  "demo_float s = (if s = ''1.5'' then Some () else None)"

text \<open>
  A value with nested lists and maps, a float, a string that needs every kind of escape,
  and a string with a closing bracket that no tag follows. Its one float is the value of
  \<open>unit\<close>, written \<open>1.5\<close>.
\<close>

definition demo_fstr :: "unit \<Rightarrow> string" where
  "demo_fstr x = ''1.5''"

definition demo_value :: "unit pyval" where
  "demo_value =
     PDict [(''name'', PStr (''a]:b}'' @ [dquote, bslash, CHR 0x01, CHR 0x0A, CHR 0x09] @ ''::c'')),
            (''tags'', PList [PInt (- 3), PNone, PBool True, PDict [], PList [PStr [], PInt 0]]),
            (''score'', PFloat ()),
            (''id'', PInt 7)]"

text \<open>A float whose text is \<open>inf\<close>, which \<open>float()\<close> reads back.\<close>

definition inf_fstr :: "unit \<Rightarrow> string" where
  "inf_fstr x = ''inf''"

definition inf_float :: "string \<Rightarrow> unit option" where
  "inf_float s = (if s = ''inf'' then Some () else None)"

section \<open>Helper lemmas\<close>

lemma str_int_1: "str_int 1 = ''1''"
  by code_simp

lemma str_int_2: "str_int 2 = ''2''"
  by code_simp

lemma str_int_7: "str_int 7 = ''7''"
  by code_simp

lemma dict_has_iff: "dict_has d k \<longleftrightarrow> k \<in> fst ` set d"
  unfolding dict_has_def by (induction d) auto

lemma substitute_no_params [simp]: "substitute_cypher_params fstr cypher None = Inr cypher"
  by (simp add: substitute_cypher_params_def)

lemma execute_cypher_plain:
  "execute_cypher rt g cypher None None rtype w =
     (case rt_transport rt (cypher_sql (g_name g) cypher None) w of
        (Inl err, w') \<Rightarrow> (Inl err, w')
      | (Inr rows, w') \<Rightarrow> (parse_results (rt_pfloat rt) rows rtype 1, w'))"
  by (simp add: execute_cypher_def columns_given_def)

lemma sel_set_attrs [simp]:
  "e_class (set_attrs x e) = e_class e" "e_attrs (set_attrs x e) = x"
  "age_fields (set_attrs x e) = age_fields e" "age_refs (set_attrs x e) = age_refs e"
  "age_refs_vals (set_attrs x e) = age_refs_vals e" "age_graph_id (set_attrs x e) = age_graph_id e"
  "age_label (set_attrs x e) = age_label e" "age_db (set_attrs x e) = age_db e"
  "age_graph (set_attrs x e) = age_graph e" "age_dirty (set_attrs x e) = age_dirty e"
  "age_start_id (set_attrs x e) = age_start_id e" "age_end_id (set_attrs x e) = age_end_id e"
  by (cases e; simp add: set_attrs_def)+

lemma sel_set_refs_vals [simp]:
  "e_class (set_refs_vals x e) = e_class e" "e_attrs (set_refs_vals x e) = e_attrs e"
  "age_fields (set_refs_vals x e) = age_fields e" "age_refs (set_refs_vals x e) = age_refs e"
  "age_refs_vals (set_refs_vals x e) = x" "age_graph_id (set_refs_vals x e) = age_graph_id e"
  "age_label (set_refs_vals x e) = age_label e" "age_db (set_refs_vals x e) = age_db e"
  "age_graph (set_refs_vals x e) = age_graph e" "age_dirty (set_refs_vals x e) = age_dirty e"
  "age_start_id (set_refs_vals x e) = age_start_id e" "age_end_id (set_refs_vals x e) = age_end_id e"
  by (cases e; simp add: set_refs_vals_def)+

lemma sel_set_graph_id [simp]:
  "e_class (set_graph_id x e) = e_class e" "e_attrs (set_graph_id x e) = e_attrs e"
  "age_fields (set_graph_id x e) = age_fields e" "age_refs (set_graph_id x e) = age_refs e"
  "age_refs_vals (set_graph_id x e) = age_refs_vals e" "age_graph_id (set_graph_id x e) = x"
  "age_label (set_graph_id x e) = age_label e" "age_db (set_graph_id x e) = age_db e"
  "age_graph (set_graph_id x e) = age_graph e" "age_dirty (set_graph_id x e) = age_dirty e"
  "age_start_id (set_graph_id x e) = age_start_id e" "age_end_id (set_graph_id x e) = age_end_id e"
  by (cases e; simp add: set_graph_id_def)+

lemma sel_set_label [simp]:
  "e_class (set_label x e) = e_class e" "e_attrs (set_label x e) = e_attrs e"
  "age_fields (set_label x e) = age_fields e" "age_refs (set_label x e) = age_refs e"
  "age_refs_vals (set_label x e) = age_refs_vals e" "age_graph_id (set_label x e) = age_graph_id e"
  "age_label (set_label x e) = x" "age_db (set_label x e) = age_db e"
  "age_graph (set_label x e) = age_graph e" "age_dirty (set_label x e) = age_dirty e"
  "age_start_id (set_label x e) = age_start_id e" "age_end_id (set_label x e) = age_end_id e"
  by (cases e; simp add: set_label_def)+

lemma sel_set_db [simp]:
  "e_class (set_db x e) = e_class e" "e_attrs (set_db x e) = e_attrs e"
  "age_fields (set_db x e) = age_fields e" "age_refs (set_db x e) = age_refs e"
  "age_refs_vals (set_db x e) = age_refs_vals e" "age_graph_id (set_db x e) = age_graph_id e"
  "age_label (set_db x e) = age_label e" "age_db (set_db x e) = x"
  "age_graph (set_db x e) = age_graph e" "age_dirty (set_db x e) = age_dirty e"
  "age_start_id (set_db x e) = age_start_id e" "age_end_id (set_db x e) = age_end_id e"
  by (cases e; simp add: set_db_def)+

lemma sel_set_graph [simp]:
  "e_class (set_graph x e) = e_class e" "e_attrs (set_graph x e) = e_attrs e"
  "age_fields (set_graph x e) = age_fields e" "age_refs (set_graph x e) = age_refs e"
  "age_refs_vals (set_graph x e) = age_refs_vals e" "age_graph_id (set_graph x e) = age_graph_id e"
  "age_label (set_graph x e) = age_label e" "age_db (set_graph x e) = age_db e"
  "age_graph (set_graph x e) = x" "age_dirty (set_graph x e) = age_dirty e"
  "age_start_id (set_graph x e) = age_start_id e" "age_end_id (set_graph x e) = age_end_id e"
  by (cases e; simp add: set_graph_def)+

lemma sel_set_dirty [simp]:
  "e_class (set_dirty x e) = e_class e" "e_attrs (set_dirty x e) = e_attrs e"
  "age_fields (set_dirty x e) = age_fields e" "age_refs (set_dirty x e) = age_refs e"
  "age_refs_vals (set_dirty x e) = age_refs_vals e" "age_graph_id (set_dirty x e) = age_graph_id e"
  "age_label (set_dirty x e) = age_label e" "age_db (set_dirty x e) = age_db e"
  "age_graph (set_dirty x e) = age_graph e" "age_dirty (set_dirty x e) = x"
  "age_start_id (set_dirty x e) = age_start_id e" "age_end_id (set_dirty x e) = age_end_id e"
  by (cases e; simp add: set_dirty_def)+

lemma sel_set_start_id [simp]:
  "e_class (set_start_id x e) = e_class e" "e_attrs (set_start_id x e) = e_attrs e"
  "age_fields (set_start_id x e) = age_fields e" "age_refs (set_start_id x e) = age_refs e"
  "age_refs_vals (set_start_id x e) = age_refs_vals e" "age_graph_id (set_start_id x e) = age_graph_id e"
  "age_label (set_start_id x e) = age_label e" "age_db (set_start_id x e) = age_db e"
  "age_graph (set_start_id x e) = age_graph e" "age_dirty (set_start_id x e) = age_dirty e"
  "age_start_id (set_start_id x e) = x" "age_end_id (set_start_id x e) = age_end_id e"
  by (cases e; simp add: set_start_id_def)+

lemma sel_set_end_id [simp]:
  "e_class (set_end_id x e) = e_class e" "e_attrs (set_end_id x e) = e_attrs e"
  "age_fields (set_end_id x e) = age_fields e" "age_refs (set_end_id x e) = age_refs e"
  "age_refs_vals (set_end_id x e) = age_refs_vals e" "age_graph_id (set_end_id x e) = age_graph_id e"
  "age_label (set_end_id x e) = age_label e" "age_db (set_end_id x e) = age_db e"
  "age_graph (set_end_id x e) = age_graph e" "age_dirty (set_end_id x e) = age_dirty e"
  "age_start_id (set_end_id x e) = age_start_id e" "age_end_id (set_end_id x e) = x"
  by (cases e; simp add: set_end_id_def)+

lemma data_field_in_fields: "x \<in> set (data_fields mf) \<Longrightarrow> dict_has mf x"
  by (force simp: data_fields_def dict_has_iff)

lemma data_field_not_ref:
  "distinct (map fst mf) \<Longrightarrow> x \<in> set (data_fields mf) \<Longrightarrow> \<not> dict_has (relationship_fields mf) x"
proof (induction mf)
  case Nil
  then show ?case by (simp add: data_fields_def)
next
  case (Cons p mf)
  obtain k r where p: "p = (k, r)" by (cases p)
  have notin: "\<not> dict_has (relationship_fields mf) k"
    using Cons.prems(1) p
    by (force simp: dict_has_iff relationship_fields_def split: option.splits)
  show ?case
  proof (cases "x = k")
    case True
    then have "r = None"
      using Cons.prems p by (auto simp: data_fields_def split: if_splits)
    then show ?thesis
      using True notin p by (simp add: relationship_fields_def dict_has_def)
  next
    case False
    then have "x \<in> set (data_fields mf)"
      using Cons.prems(2) p by (auto simp: data_fields_def split: if_splits)
    then have "\<not> dict_has (relationship_fields mf) x"
      using Cons.IH Cons.prems(1) by simp
    then show ?thesis
      using False p by (cases r) (auto simp: relationship_fields_def dict_has_def)
  qed
qed

lemma new_entity_dirty:
  "new_entity cl cls kw = Inr e \<Longrightarrow>
     age_dirty e = (if kw_db kw = None then set (data_fields (mc_fields (class_def cl cls))) else {})"
  by (auto simp: new_entity_def Let_def split: option.splits)

lemma dict_to_model_dirty: "dict_to_model cl data cls db g = Inr e \<Longrightarrow> age_dirty e = {}"
  by (auto simp: dict_to_model_def Let_def split: option.splits sum.splits pyval.splits if_splits)

lemma setattr_field_dirty:
  assumes wf: "well_formed_class (class_def cl (e_class e))"
    and inst: "instance_of_class cl e"
    and x: "x \<in> set (age_fields e)"
  shows "\<exists>e'. setattr_entity cl e x v = Inr e' \<and> x \<in> age_dirty e'"
proof -
  let ?mf = "mc_fields (class_def cl (e_class e))"
  have xin: "x \<in> set (data_fields ?mf)" using x inst by (simp add: instance_of_class_def)
  then have has: "dict_has ?mf x" by (rule data_field_in_fields)
  have "x \<in> set (map fst ?mf)"
    using has by (simp add: dict_has_iff)
  then have ok: "\<not> starts_with ''_'' x" "x \<noteq> ''model_config''"
    using wf by (auto simp: well_formed_class_def list_all_iff)
  have not_internal: "x \<notin> set INTERNAL_ATTRS"
    using ok(1) by (auto simp: INTERNAL_ATTRS_def starts_with_def)
  have noref: "\<not> dict_has (age_refs e) x"
    using data_field_not_ref [OF _ xin] wf inst by (simp add: well_formed_class_def instance_of_class_def)
  show ?thesis
    using ok not_internal has noref
    by (simp add: setattr_entity_def pydantic_setattr_def)
qed

lemma strip_trailing_tag_once:
  "strip_trailing_tag s = s \<or>
   (\<exists>p w t. s = p @ ''::'' @ w @ t \<and> w \<noteq> [] \<and> list_all is_word_char w \<and> at_text_end t
            \<and> strip_trailing_tag s = p @ t)"
proof (induction s)
  case Nil
  then show ?case by simp
next
  case (Cons c cs)
  show ?case
  proof (cases "c = CHR '':'' \<and> trailing_tag cs")
    case True
    then obtain w0 r where cs: "cs = CHR '':'' # w0 # r" and w0: "is_word_char w0"
      and e: "at_text_end (dropWhile is_word_char r)"
      by (auto simp: trailing_tag_def split: list.splits)
    have "c # cs = [] @ ''::'' @ (w0 # takeWhile is_word_char r) @ dropWhile is_word_char r"
      using True cs by simp
    moreover have "strip_trailing_tag (c # cs) = [] @ dropWhile is_word_char r"
      using True cs w0 by simp
    moreover have "list_all is_word_char (w0 # takeWhile is_word_char r)"
      using w0 by (simp add: list_all_iff) (meson set_takeWhileD)
    ultimately show ?thesis using e by blast
  next
    case False
    then have step: "strip_trailing_tag (c # cs) = c # strip_trailing_tag cs" by auto
    from Cons.IH show ?thesis
    proof
      assume "strip_trailing_tag cs = cs"
      then show ?thesis using step by simp
    next
      assume "\<exists>p w t. cs = p @ ''::'' @ w @ t \<and> w \<noteq> [] \<and> list_all is_word_char w \<and> at_text_end t
            \<and> strip_trailing_tag cs = p @ t"
      then obtain p w t where "cs = p @ ''::'' @ w @ t" "w \<noteq> []" "list_all is_word_char w"
        "at_text_end t" "strip_trailing_tag cs = p @ t" by blast
      then have "c # cs = (c # p) @ ''::'' @ w @ t \<and> w \<noteq> [] \<and> list_all is_word_char w \<and> at_text_end t
            \<and> strip_trailing_tag (c # cs) = (c # p) @ t"
        using step by simp
      then show ?thesis by blast
    qed
  qed
qed

lemma tag_follows_append:
  "ys = [] \<or> (hd ys \<noteq> CHR '':'' \<and> \<not> is_word_char (hd ys)) \<Longrightarrow> tag_follows (xs @ ys) = tag_follows xs"
  by (cases xs; cases ys) (auto simp: tag_follows_def split: list.splits)

lemma bracket_not_colon_word:
  "b = CHR '']'' \<or> b = CHR ''}'' \<Longrightarrow> b \<noteq> CHR '':'' \<and> \<not> is_word_char b"
  by (auto simp: is_word_char_def is_ident_char_def is_digit_def is_ascii_letter_def code_of_def)

lemma strip_bracket_tags_id: "\<not> has_bracket_tag s \<Longrightarrow> strip_bracket_tags s = s"
  by (induction s) auto

lemma strip_bracket_tags_append:
  "\<not> has_bracket_tag p \<Longrightarrow> ys = [] \<or> (hd ys \<noteq> CHR '':'' \<and> \<not> is_word_char (hd ys))
   \<Longrightarrow> strip_bracket_tags (p @ ys) = p @ strip_bracket_tags ys"
  by (induction p) (auto simp: tag_follows_append)

lemma dropWhile_run: "list_all P w \<Longrightarrow> q = [] \<or> \<not> P (hd q) \<Longrightarrow> dropWhile P (w @ q) = q"
  by (induction w) (cases q; auto)+

lemma strip_bracket_tags_tag:
  assumes "\<not> has_bracket_tag p" and "b = CHR '']'' \<or> b = CHR ''}''"
    and "w \<noteq> []" and "list_all is_word_char w" and "q = [] \<or> \<not> is_word_char (hd q)"
  shows "strip_bracket_tags (p @ b # ''::'' @ w @ q) = p @ b # strip_bracket_tags q"
proof -
  have tf: "tag_follows (''::'' @ w @ q)"
    using assms(3,4) by (cases w) (auto simp: tag_follows_def)
  have "strip_bracket_tags (b # ''::'' @ w @ q) = b # strip_bracket_tags (dropWhile is_word_char (w @ q))"
    using tf assms(2) by auto
  also have "dropWhile is_word_char (w @ q) = q"
    by (rule dropWhile_run [OF assms(4,5)])
  finally have one: "strip_bracket_tags (b # ''::'' @ w @ q) = b # strip_bracket_tags q" .
  have "strip_bracket_tags (p @ (b # ''::'' @ w @ q)) = p @ strip_bracket_tags (b # ''::'' @ w @ q)"
    using bracket_not_colon_word [OF assms(2)] by (intro strip_bracket_tags_append [OF assms(1)]) simp
  then show ?thesis using one by simp
qed

subsection \<open>Escaped strings are scanned back\<close>

lemma replace_char_Nil [simp]: "replace_char a r [] = []"
  by (simp add: replace_char_def)

lemma replace_char_Cons [simp]:
  "replace_char a r (c # cs) = (if c = a then r else [c]) @ replace_char a r cs"
  by (simp add: replace_char_def)

lemma replace_char_append [simp]:
  "replace_char a r (xs @ ys) = replace_char a r xs @ replace_char a r ys"
  by (simp add: replace_char_def)

lemma code_of_simps [simp]:
  "code_of bslash = 92" "code_of dquote = 34" "code_of (CHR 0x0A) = 10"
  "code_of (CHR 0x0D) = 13" "code_of (CHR 0x09) = 9" "code_of (CHR ''n'') = 110"
  "code_of (CHR ''r'') = 114" "code_of (CHR ''t'') = 116" "code_of (CHR ''u'') = 117"
  by (simp_all add: code_of_def bslash_def dquote_def)

lemma code_of_inj: "code_of a = code_of b \<Longrightarrow> a = b"
  by (simp add: code_of_def)

lemma code_of_neq: "code_of a \<noteq> code_of b \<Longrightarrow> a \<noteq> b"
  by auto

lemma escape_passes_char:
  "concat (map escape_control
     (replace_char (CHR 0x09) [bslash, CHR ''t'']
       (replace_char (CHR 0x0D) [bslash, CHR ''r'']
         (replace_char (CHR 0x0A) [bslash, CHR ''n'']
           (replace_char dquote [bslash, dquote]
             (replace_char bslash [bslash, bslash] [c])))))) = agtype_esc c"
  by (auto simp: agtype_esc_def escape_control_def bslash_def dquote_def code_of_def)

lemma escape_agtype_string_Cons:
  "escape_agtype_string (c # cs) = agtype_esc c @ escape_agtype_string cs"
proof -
  have "escape_agtype_string (c # cs) = escape_agtype_string ([c] @ cs)" by simp
  also have "\<dots> = escape_agtype_string [c] @ escape_agtype_string cs"
    unfolding escape_agtype_string_def Let_def replace_char_append map_append concat_append ..
  also have "escape_agtype_string [c] = agtype_esc c"
    unfolding escape_agtype_string_def Let_def by (rule escape_passes_char)
  finally show ?thesis .
qed

lemma escape_agtype_string_Nil [simp]: "escape_agtype_string [] = []"
  by (simp add: escape_agtype_string_def)

lemma escape_agtype_string_map: "escape_agtype_string s = concat (map agtype_esc s)"
  by (induction s) (simp_all add: escape_agtype_string_Cons)

lemma hex_val_hex_char: "k < 16 \<Longrightarrow> hex_val (hex_char k) = Some k"
  by (auto simp: hex_val_def hex_char_def is_digit_def code_of_def)

lemma decode_u_escape:
  assumes "code_of c < 0x20"
  shows "decode_uXXXX (hex_char (code_of c div 4096 mod 16)) (hex_char (code_of c div 256 mod 16))
           (hex_char (code_of c div 16 mod 16)) (hex_char (code_of c mod 16)) = Some c"
proof -
  let ?n = "code_of c"
  have z: "?n div 4096 mod 16 = 0" "?n div 256 mod 16 = 0" using assms by simp_all
  have a: "?n div 16 mod 16 < 16" "?n mod 16 < 16" by simp_all
  have small: "?n div 16 mod 16 = ?n div 16" using assms by simp
  have "char_of ?n = c" by (simp add: code_of_def)
  moreover have "(?n div 16) * 16 + ?n mod 16 = ?n" by simp
  ultimately show ?thesis
    using assms hex_val_hex_char [OF a(1)] hex_val_hex_char [OF a(2)] hex_val_hex_char [of 0]
    by (simp add: decode_uXXXX_def z small)
qed

lemma scanstring_escaped:
  "scanstring (escape_agtype_string s @ dquote # rest) = Some (s, rest)"
proof (induction s)
  case Nil
  then show ?case by simp
next
  case (Cons c s)
  have IH: "scanstring (escape_agtype_string s @ dquote # rest) = Some (s, rest)" by fact
  consider (b) "c = bslash" | (q) "c = dquote" | (n) "c = CHR 0x0A" | (r) "c = CHR 0x0D"
    | (t) "c = CHR 0x09"
    | (ctl) "c \<noteq> bslash" "c \<noteq> dquote" "c \<noteq> CHR 0x0A" "c \<noteq> CHR 0x0D" "c \<noteq> CHR 0x09" "code_of c < 0x20"
    | (plain) "c \<noteq> bslash" "c \<noteq> dquote" "\<not> code_of c < 0x20"
    by (cases "code_of c < 0x20") auto
  then show ?case
  proof cases
    case b
    then show ?thesis
      using IH by (simp add: escape_agtype_string_Cons agtype_esc_def json_backslash_def
          bslash_def dquote_def)
  next
    case q
    then show ?thesis
      using IH by (simp add: escape_agtype_string_Cons agtype_esc_def json_backslash_def
          bslash_def dquote_def)
  next
    case n
    then show ?thesis
      using IH by (simp add: escape_agtype_string_Cons agtype_esc_def json_backslash_def
          bslash_def dquote_def)
  next
    case r
    then show ?thesis
      using IH by (simp add: escape_agtype_string_Cons agtype_esc_def json_backslash_def
          bslash_def dquote_def)
  next
    case t
    then show ?thesis
      using IH by (simp add: escape_agtype_string_Cons agtype_esc_def json_backslash_def
          bslash_def dquote_def)
  next
    case ctl
    have esc: "agtype_esc c = u_escape (code_of c)"
      using ctl by (simp add: agtype_esc_def)
    show ?thesis
      using IH decode_u_escape [OF ctl(6)]
      by (simp add: escape_agtype_string_Cons esc u_escape_def bslash_def dquote_def)
  next
    case plain
    have esc: "agtype_esc c = [c]"
      using plain by (auto simp: agtype_esc_def code_of_def)
    show ?thesis
      using IH plain by (simp add: escape_agtype_string_Cons esc)
  qed
qed

subsection \<open>Integers are rendered and read back\<close>

lemma is_digit_digit_char: "d < 10 \<Longrightarrow> is_digit (digit_char d)"
  by (simp add: is_digit_def digit_char_def code_of_def)

lemma digit_val_digit_char: "d < 10 \<Longrightarrow> digit_val (digit_char d) = d"
  by (simp add: digit_val_def digit_char_def code_of_def)

lemma char_of_48: "char_of (48::nat) = CHR ''0''"
  by code_simp

lemma digit_char_zero_iff: "d < 10 \<Longrightarrow> digit_char d = CHR ''0'' \<longleftrightarrow> d = 0"
proof
  assume d: "d < 10" and "digit_char d = CHR ''0''"
  then have "of_char (digit_char d) = (of_char (CHR ''0'') :: nat)" by simp
  then show "d = 0" using d by (simp add: digit_char_def)
next
  assume "d = 0"
  then show "digit_char d = CHR ''0''" by (simp add: digit_char_def char_of_48)
qed

lemma str_nat_digits: "list_all is_digit (str_nat n)"
  by (induction n rule: str_nat.induct) (subst str_nat.simps, simp add: is_digit_digit_char)

lemma str_nat_not_Nil [simp]: "str_nat n \<noteq> []"
  by (subst str_nat.simps) simp

lemma str_nat_value_acc:
  "foldl (\<lambda>a d. a * 10 + digit_val d) 0 (str_nat n) = n"
proof (induction n rule: str_nat.induct)
  case (1 n)
  show ?case
  proof (cases "n < 10")
    case True
    then show ?thesis by (subst str_nat.simps) (simp add: digit_val_digit_char)
  next
    case False
    then show ?thesis
      using 1 by (subst str_nat.simps) (simp add: digit_val_digit_char)
  qed
qed

lemma str_nat_hd: "0 < n \<Longrightarrow> hd (str_nat n) \<noteq> CHR ''0''"
proof (induction n rule: str_nat.induct)
  case (1 n)
  show ?case
  proof (cases "n < 10")
    case True
    then show ?thesis using 1(2) by (subst str_nat.simps) (simp add: digit_char_zero_iff)
  next
    case False
    then have "0 < n div 10" by simp
    then have "hd (str_nat (n div 10)) \<noteq> CHR ''0''" using 1(1) False by simp
    then show ?thesis using False by (subst str_nat.simps) simp
  qed
qed

lemma str_nat_0: "str_nat 0 = ''0''"
  by (subst str_nat.simps) (simp add: digit_char_def char_of_48)

lemma foldl_digits_acc:
  "list_all is_digit ds \<Longrightarrow> int_digits acc ds = Some (foldl (\<lambda>a d. a * 10 + digit_val d) acc ds)"
  by (induction ds arbitrary: acc) simp_all

lemma foldl_digits_shift:
  "foldl (\<lambda>a d. a * 10 + digit_val d) (digit_val c) ds = foldl (\<lambda>a d. a * 10 + digit_val d) 0 (c # ds)"
  by simp

lemma py_digits_str_nat: "py_digits (str_nat n) = Some n"
proof -
  obtain c ds where s: "str_nat n = c # ds" by (cases "str_nat n") auto
  have d: "is_digit c" "list_all is_digit ds" using str_nat_digits [of n] s by simp_all
  have "py_digits (str_nat n) = Some (foldl (\<lambda>a d. a * 10 + digit_val d) 0 (str_nat n))"
    using d s by (simp add: py_digits_def foldl_digits_acc)
  then show ?thesis by (simp add: str_nat_value_acc)
qed

lemma digit_not_space: "is_digit c \<Longrightarrow> \<not> is_int_space c"
  by (auto simp: is_digit_def is_int_space_def)

lemma str_nat_hd_digit: "is_digit (hd (str_nat n))"
  using str_nat_digits [of n] by (cases "str_nat n") auto

lemma str_nat_last_digit: "is_digit (last (str_nat n))"
  using str_nat_digits [of n] str_nat_not_Nil [of n] by (metis last_in_set list_all_iff)

lemma dropWhile_id: "xs \<noteq> [] \<Longrightarrow> \<not> P (hd xs) \<Longrightarrow> dropWhile P xs = xs"
  by (cases xs) auto

lemma strip_both_id:
  "xs \<noteq> [] \<Longrightarrow> \<not> P (hd xs) \<Longrightarrow> \<not> P (last xs) \<Longrightarrow> rev (dropWhile P (rev (dropWhile P xs))) = xs"
  by (simp add: dropWhile_id hd_rev)

lemma py_int_str_int: "py_int (str_int i) = Some i"
proof (cases "i < 0")
  case True
  let ?s = "CHR ''-'' # str_nat (nat (- i))"
  have ne: "?s \<noteq> []" by simp
  have h: "\<not> is_int_space (hd ?s)" by (simp add: is_int_space_def code_of_def)
  have l: "\<not> is_int_space (last ?s)" using str_nat_last_digit [of "nat (- i)"] by (simp add: digit_not_space)
  have "rev (dropWhile is_int_space (rev (dropWhile is_int_space ?s))) = ?s"
    by (rule strip_both_id [OF ne h l])
  then show ?thesis
    using True by (simp add: py_int_def str_int_def py_digits_str_nat)
next
  case False
  let ?s = "str_nat (nat i)"
  obtain c ds where s: "?s = c # ds" by (cases ?s) auto
  have c: "is_digit c" using str_nat_hd_digit [of "nat i"] s by simp
  then have cm: "c \<noteq> CHR ''-''" "c \<noteq> CHR ''+''" by (auto simp: is_digit_def code_of_def)
  have "rev (dropWhile is_int_space (rev (dropWhile is_int_space ?s))) = ?s"
    using str_nat_hd_digit [of "nat i"] str_nat_last_digit [of "nat i"]
    by (intro strip_both_id) (simp_all add: digit_not_space)
  then have "py_int ?s = map_option int (py_digits ?s)"
    using s cm by (simp add: py_int_def)
  then show ?thesis
    using False by (simp add: str_int_def py_digits_str_nat)
qed

lemma value_stop_no_digit: "value_stop rest \<Longrightarrow> takeWhile is_digit rest = [] \<and> dropWhile is_digit rest = rest"
  by (cases rest) (auto simp: value_stop_def is_digit_def code_of_def)

lemma takeWhile_all: "list_all P xs \<Longrightarrow> takeWhile P (xs @ ys) = xs @ takeWhile P ys"
  by (induction xs) auto

lemma dropWhile_all: "list_all P xs \<Longrightarrow> dropWhile P (xs @ ys) = dropWhile P ys"
  by (induction xs) auto

lemma scan_integer_str_nat:
  assumes "value_stop rest"
  shows "scan_integer (str_nat n @ rest) = Some (str_nat n, rest)"
proof (cases "n = 0")
  case True
  then show ?thesis by (simp add: str_nat_0 scan_integer_def)
next
  case False
  obtain c ds where s: "str_nat n = c # ds" by (cases "str_nat n") auto
  have d: "is_digit c" "list_all is_digit ds" using str_nat_digits [of n] s by simp_all
  have c0: "c \<noteq> CHR ''0''" using str_nat_hd [of n] False s by simp
  have cm: "c \<noteq> CHR ''-''" using d(1) by (auto simp: is_digit_def code_of_def)
  show ?thesis
    using s d c0 cm value_stop_no_digit [OF assms]
    by (simp add: scan_integer_def takeWhile_all dropWhile_all)
qed

lemma scan_integer_str_int:
  assumes "value_stop rest"
  shows "scan_integer (str_int i @ rest) = Some (str_int i, rest)"
proof (cases "i < 0")
  case True
  let ?n = "nat (- i)"
  have pos: "0 < ?n" using True by simp
  obtain c ds where s: "str_nat ?n = c # ds" by (cases "str_nat ?n") auto
  have d: "is_digit c" "list_all is_digit ds" using str_nat_digits [of ?n] s by simp_all
  have c0: "c \<noteq> CHR ''0''" using str_nat_hd [OF pos] s by simp
  show ?thesis
    using True s d c0 value_stop_no_digit [OF assms]
    by (simp add: str_int_def scan_integer_def takeWhile_all dropWhile_all)
next
  case False
  then show ?thesis
    using scan_integer_str_nat [OF assms] by (simp add: str_int_def)
qed

lemma scan_frac_stop: "value_stop rest \<Longrightarrow> scan_frac rest = ([], rest)"
  by (cases rest) (auto simp: scan_frac_def value_stop_def split: list.splits)

lemma scan_exp_stop: "value_stop rest \<Longrightarrow> scan_exp rest = ([], rest)"
  by (cases rest) (auto simp: scan_exp_def value_stop_def)

lemma scan_number_str_int:
  "value_stop rest \<Longrightarrow> scan_number (str_int i @ rest) = Some ((str_int i, [], []), rest)"
  by (simp add: scan_number_def scan_integer_str_int scan_frac_stop scan_exp_stop)

lemma int_of_literal_str_int: "int_of_literal (str_int i) = i"
proof (cases "i < 0")
  case True
  then show ?thesis by (simp add: int_of_literal_def str_int_def str_nat_value_acc)
next
  case False
  obtain c ds where s: "str_nat (nat i) = c # ds" by (cases "str_nat (nat i)") auto
  have c: "is_digit c" using str_nat_hd_digit [of "nat i"] s by simp
  then have cm: "c \<noteq> CHR ''-''" by (auto simp: is_digit_def code_of_def)
  have "foldl (\<lambda>a d. a * 10 + digit_val d) 0 (c # ds) = nat i"
    using str_nat_value_acc [of "nat i"] s by simp
  then show ?thesis
    using False s cm by (simp add: int_of_literal_def str_int_def)
qed

lemma str_int_hd: "\<exists>c cs. str_int i = c # cs \<and> (is_digit c \<or> c = CHR ''-'')"
proof (cases "i < 0")
  case True
  then show ?thesis by (simp add: str_int_def)
next
  case False
  obtain c ds where s: "str_nat (nat i) = c # ds" by (cases "str_nat (nat i)") auto
  have c: "is_digit c" using str_nat_hd_digit [of "nat i"] s by simp
  then show ?thesis using False s by (simp add: str_int_def)
qed

lemma json_value_int:
  assumes "value_stop rest"
  shows "json_value pf (Suc n) (str_int i @ rest) = Some (PInt i, rest)"
proof -
  obtain c cs where s: "str_int i = c # cs" and c: "is_digit c \<or> c = CHR ''-''"
    using str_int_hd by blast
  have ne: "c \<noteq> dquote" "c \<noteq> CHR ''{''" "c \<noteq> CHR ''[''" "c \<noteq> CHR ''n''" "c \<noteq> CHR ''t''" "c \<noteq> CHR ''f''"
    using c by (auto simp: is_digit_def code_of_def dquote_def)
  have num: "scan_number (c # cs @ rest) = Some ((c # cs, [], []), rest)"
    using scan_number_str_int [OF assms, of i] s by simp
  have lit: "int_of_literal (c # cs) = i" using int_of_literal_str_int [of i] s by simp
  show ?thesis
    using ne num lit by (simp add: s)
qed

subsection \<open>The text of a float\<close>

lemma takeWhile_stop: "ys = [] \<or> \<not> P (hd ys) \<Longrightarrow> takeWhile P (xs @ ys) = takeWhile P xs"
  by (induction xs) (cases ys; auto)+

lemma dropWhile_stop: "ys = [] \<or> \<not> P (hd ys) \<Longrightarrow> dropWhile P (xs @ ys) = dropWhile P xs @ ys"
  by (induction xs) (cases ys; auto)+

lemma value_stop_hd:
  assumes "value_stop rest"
  shows "rest = [] \<or> (\<not> is_digit (hd rest) \<and> hd rest \<noteq> CHR ''.'' \<and> hd rest \<noteq> CHR ''e''
           \<and> hd rest \<noteq> CHR ''E'' \<and> hd rest \<noteq> CHR ''-'' \<and> hd rest \<noteq> CHR ''+'')"
  using assms by (cases rest) (auto simp: value_stop_def is_digit_def code_of_def)

lemma zero_is_digit: "is_digit (CHR ''0'')" "is_digit d \<Longrightarrow> d \<noteq> CHR ''-''"
  by (auto simp: is_digit_def code_of_def)

lemma scan_integer_eval:
  assumes "sign = [] \<or> sign = ''-''" and "is_digit d"
  shows "scan_integer (sign @ d # r1) =
           Some (sign @ d # (if d = CHR ''0'' then [] else takeWhile is_digit r1),
                 if d = CHR ''0'' then r1 else dropWhile is_digit r1)"
  using assms(1)
proof
  assume "sign = []"
  then show ?thesis using assms(2) zero_is_digit(2) [OF assms(2)] by (simp add: scan_integer_def)
next
  assume "sign = ''-''"
  then show ?thesis using assms(2) by (simp add: scan_integer_def)
qed

lemma scan_integer_SomeD:
  assumes "scan_integer s = Some (i, r)"
  shows "\<exists>sign d r1. s = sign @ d # r1 \<and> (sign = [] \<or> sign = ''-'') \<and> is_digit d"
proof (cases s)
  case Nil
  then show ?thesis using assms by (simp add: scan_integer_def)
next
  case (Cons c cs)
  show ?thesis
  proof (cases "c = CHR ''-''")
    case True
    show ?thesis
    proof (cases cs)
      case Nil
      then show ?thesis using assms Cons True by (simp add: scan_integer_def)
    next
      case (Cons d r1)
      have "is_digit d"
        using assms \<open>s = c # cs\<close> True Cons zero_is_digit(1)
        by (auto simp: scan_integer_def Let_def split: if_splits)
      moreover have "s = ''-'' @ d # r1" using \<open>s = c # cs\<close> True Cons by simp
      ultimately show ?thesis by blast
    qed
  next
    case False
    have "is_digit c"
      using assms Cons False zero_is_digit(1) by (auto simp: scan_integer_def Let_def split: if_splits)
    moreover have "s = [] @ c # cs" using Cons by simp
    ultimately show ?thesis by blast
  qed
qed

lemma scan_integer_append:
  assumes "scan_integer s = Some (i, r)" and "value_stop rest"
  shows "scan_integer (s @ rest) = Some (i, r @ rest)"
proof -
  have stop: "rest = [] \<or> \<not> is_digit (hd rest)" using value_stop_hd [OF assms(2)] by blast
  obtain sign d r1 where s: "s = sign @ d # r1" and sg: "sign = [] \<or> sign = ''-''" and d: "is_digit d"
    using scan_integer_SomeD [OF assms(1)] by blast
  have tw: "takeWhile is_digit (r1 @ rest) = takeWhile is_digit r1"
    by (rule takeWhile_stop [where P = is_digit, OF stop])
  have dw: "dropWhile is_digit (r1 @ rest) = dropWhile is_digit r1 @ rest"
    by (rule dropWhile_stop [where P = is_digit, OF stop])
  have one: "scan_integer s = Some (sign @ d # (if d = CHR ''0'' then [] else takeWhile is_digit r1),
                 if d = CHR ''0'' then r1 else dropWhile is_digit r1)"
    unfolding s by (rule scan_integer_eval [OF sg d])
  have "scan_integer (sign @ d # (r1 @ rest)) =
          Some (sign @ d # (if d = CHR ''0'' then [] else takeWhile is_digit (r1 @ rest)),
                 if d = CHR ''0'' then r1 @ rest else dropWhile is_digit (r1 @ rest))"
    by (rule scan_integer_eval [OF sg d])
  then show ?thesis using one assms(1) s tw dw by (auto split: if_splits)
qed

lemma scan_integer_parts: "scan_integer s = Some (i, r) \<Longrightarrow> s = i @ r"
proof -
  assume a: "scan_integer s = Some (i, r)"
  obtain sign d r1 where s: "s = sign @ d # r1" and sg: "sign = [] \<or> sign = ''-''" and d: "is_digit d"
    using scan_integer_SomeD [OF a] by blast
  show ?thesis
    using a scan_integer_eval [OF sg d, of r1] unfolding s by (auto split: if_splits)
qed

lemma scan_integer_head:
  "scan_integer s = Some (i, r) \<Longrightarrow> \<exists>c t. i = c # t \<and> (is_digit c \<or> c = CHR ''-'')"
proof -
  assume a: "scan_integer s = Some (i, r)"
  obtain sign d r1 where s: "s = sign @ d # r1" and sg: "sign = [] \<or> sign = ''-''" and d: "is_digit d"
    using scan_integer_SomeD [OF a] by blast
  show ?thesis
    using a scan_integer_eval [OF sg d, of r1] sg d unfolding s by (auto split: if_splits)
qed

lemma scan_frac_append:
  assumes "value_stop rest"
  shows "scan_frac (r @ rest) = (fst (scan_frac r), snd (scan_frac r) @ rest)"
proof -
  have stop: "rest = [] \<or> \<not> is_digit (hd rest)" using value_stop_hd [OF assms] by blast
  have dot: "rest = [] \<or> hd rest \<noteq> CHR ''.''" using value_stop_hd [OF assms] by blast
  show ?thesis
  proof (cases r)
    case Nil
    then show ?thesis using dot by (cases rest) (auto simp: scan_frac_def split: list.splits)
  next
    case (Cons p r1)
    show ?thesis
    proof (cases r1)
      case Nil
      then show ?thesis using Cons stop by (cases rest) (auto simp: scan_frac_def)
    next
      case (Cons d r2)
      have tw: "takeWhile is_digit (r2 @ rest) = takeWhile is_digit r2"
        by (rule takeWhile_stop [where P = is_digit, OF stop])
      have dw: "dropWhile is_digit (r2 @ rest) = dropWhile is_digit r2 @ rest"
        by (rule dropWhile_stop [where P = is_digit, OF stop])
      show ?thesis
        using \<open>r = p # r1\<close> Cons by (simp add: scan_frac_def tw dw)
    qed
  qed
qed

lemma scan_frac_parts: "r = fst (scan_frac r) @ snd (scan_frac r)"
  by (auto simp: scan_frac_def split: list.splits)

lemma scan_frac_head: "fst (scan_frac r) \<noteq> [] \<Longrightarrow> hd (fst (scan_frac r)) = CHR ''.''"
  by (auto simp: scan_frac_def split: list.splits if_splits)

lemma scan_exp_append:
  assumes "value_stop rest"
  shows "scan_exp (r @ rest) = (fst (scan_exp r), snd (scan_exp r) @ rest)"
proof -
  have stop: "rest = [] \<or> \<not> is_digit (hd rest)" using value_stop_hd [OF assms] by blast
  have nd: "takeWhile is_digit rest = []" using stop by (cases rest) auto
  show ?thesis
  proof (cases r)
    case Nil
    then show ?thesis
      using value_stop_hd [OF assms] by (cases rest) (auto simp: scan_exp_def)
  next
    case (Cons e r1)
    show ?thesis
    proof (cases "e = CHR ''e'' \<or> e = CHR ''E''")
      case False
      then show ?thesis using Cons by (simp add: scan_exp_def)
    next
      case True
      show ?thesis
      proof (cases r1)
        case Nil
        have "scan_exp (e # rest) = ([], e # rest)"
          using True nd value_stop_hd [OF assms]
          by (cases rest) (auto simp: scan_exp_def Let_def)
        then show ?thesis using Cons Nil True by (simp add: scan_exp_def)
      next
        case (Cons c r2)
        show ?thesis
        proof (cases "c = CHR ''-'' \<or> c = CHR ''+''")
          case True
          have tw: "takeWhile is_digit (r2 @ rest) = takeWhile is_digit r2"
            by (rule takeWhile_stop [where P = is_digit, OF stop])
          have dw: "dropWhile is_digit (r2 @ rest) = dropWhile is_digit r2 @ rest"
            by (rule dropWhile_stop [where P = is_digit, OF stop])
          show ?thesis
            using \<open>r = e # r1\<close> Cons \<open>e = CHR ''e'' \<or> e = CHR ''E''\<close> True tw dw
            by (auto simp: scan_exp_def Let_def)
        next
          case False
          have tw: "takeWhile is_digit ((c # r2) @ rest) = takeWhile is_digit (c # r2)"
            and dw: "dropWhile is_digit ((c # r2) @ rest) = dropWhile is_digit (c # r2) @ rest"
            by (rule takeWhile_stop [where P = is_digit, OF stop], rule dropWhile_stop [where P = is_digit, OF stop])
          show ?thesis
            using \<open>r = e # r1\<close> Cons \<open>e = CHR ''e'' \<or> e = CHR ''E''\<close> False tw dw
            by (auto simp: scan_exp_def Let_def)
        qed
      qed
    qed
  qed
qed

lemma scan_exp_parts: "r = fst (scan_exp r) @ snd (scan_exp r)"
  by (cases r; cases "tl r") (auto simp: scan_exp_def Let_def)

lemma scan_exp_head:
  "fst (scan_exp r) \<noteq> [] \<Longrightarrow> hd (fst (scan_exp r)) = CHR ''e'' \<or> hd (fst (scan_exp r)) = CHR ''E''"
  by (cases r) (auto simp: scan_exp_def Let_def split: if_splits)

lemma scan_number_append:
  assumes "scan_number s = Some ((i, f, e), r)" and "value_stop rest"
  shows "scan_number (s @ rest) = Some ((i, f, e), r @ rest)"
proof -
  obtain r1 where a: "scan_integer s = Some (i, r1)"
    using assms(1) by (auto simp: scan_number_def split: option.splits prod.splits)
  have b: "fst (scan_frac r1) = f" and c: "fst (scan_exp (snd (scan_frac r1))) = e"
    and d: "snd (scan_exp (snd (scan_frac r1))) = r"
    using assms(1) a by (auto simp: scan_number_def split: prod.splits)
  have a': "scan_integer (s @ rest) = Some (i, r1 @ rest)"
    by (rule scan_integer_append [OF a assms(2)])
  have b': "scan_frac (r1 @ rest) = (f, snd (scan_frac r1) @ rest)"
    unfolding scan_frac_append [OF assms(2), of r1] b ..
  have c': "scan_exp (snd (scan_frac r1) @ rest) = (e, r @ rest)"
    unfolding scan_exp_append [OF assms(2), of "snd (scan_frac r1)"] c d ..
  show ?thesis by (simp add: scan_number_def a' b' c')
qed

lemma scan_number_parts:
  assumes "scan_number s = Some ((i, f, e), r)"
  shows "s = i @ f @ e @ r"
    and "\<exists>c t. i = c # t \<and> (is_digit c \<or> c = CHR ''-'')"
    and "f \<noteq> [] \<Longrightarrow> hd f = CHR ''.''"
    and "e \<noteq> [] \<Longrightarrow> hd e = CHR ''e'' \<or> hd e = CHR ''E''"
proof -
  obtain r1 where a: "scan_integer s = Some (i, r1)"
    using assms by (auto simp: scan_number_def split: option.splits prod.splits)
  have b: "f = fst (scan_frac r1)" and c: "e = fst (scan_exp (snd (scan_frac r1)))"
    and d: "r = snd (scan_exp (snd (scan_frac r1)))"
    using assms a by (auto simp: scan_number_def split: prod.splits)
  have "s = i @ r1" by (rule scan_integer_parts [OF a])
  also have "r1 = f @ snd (scan_frac r1)" using scan_frac_parts [of r1] b by simp
  also have "snd (scan_frac r1) = e @ r" using scan_exp_parts [of "snd (scan_frac r1)"] c d by simp
  finally show "s = i @ f @ e @ r" by simp
  show "\<exists>c t. i = c # t \<and> (is_digit c \<or> c = CHR ''-'')" by (rule scan_integer_head [OF a])
  show "f \<noteq> [] \<Longrightarrow> hd f = CHR ''.''" using scan_frac_head [of r1] b by simp
  show "e \<noteq> [] \<Longrightarrow> hd e = CHR ''e'' \<or> hd e = CHR ''E''"
    using scan_exp_head [of "snd (scan_frac r1)"] c by simp
qed

lemma float_text_scan:
  assumes "json_float_text s"
  shows "\<exists>i f e. scan_number s = Some ((i, f, e), []) \<and> (f \<noteq> [] \<or> e \<noteq> []) \<and> s = i @ f @ e"
proof -
  obtain i f e where a: "scan_number s = Some ((i, f, e), [])" and b: "f \<noteq> [] \<or> e \<noteq> []"
    using assms by (auto simp: json_float_text_def split: option.splits)
  have "s = i @ f @ e" using scan_number_parts(1) [OF a] by simp
  then show ?thesis using a b by blast
qed

lemma float_text_head:
  assumes "json_float_text s"
  shows "\<exists>c r. s = c # r \<and> (is_digit c \<or> c = CHR ''-'')"
proof -
  obtain i f e where a: "scan_number s = Some ((i, f, e), [])" and s: "s = i @ f @ e"
    using float_text_scan [OF assms] by blast
  obtain c t where "i = c # t" "is_digit c \<or> c = CHR ''-''"
    using scan_number_parts(2) [OF a] by blast
  then show ?thesis using s by simp
qed

lemma float_char_facts:
  "float_char c \<Longrightarrow> c \<noteq> CHR '']'' \<and> c \<noteq> CHR ''}'' \<and> c \<noteq> CHR '':'' \<and> \<not> is_py_space c
                    \<and> \<not> is_int_space c"
  by (auto simp: float_char_def is_digit_def is_py_space_def is_int_space_def code_of_def)

lemma float_text_chars:
  "json_float_text s \<Longrightarrow> x \<in> set s \<Longrightarrow> x \<noteq> CHR '']'' \<and> x \<noteq> CHR ''}'' \<and> x \<noteq> CHR '':''
      \<and> \<not> is_py_space x \<and> \<not> is_int_space x"
  using float_char_facts [of x] by (auto simp: json_float_text_def list_all_iff)

lemma float_text_mark:
  assumes "json_float_text s"
  shows "\<exists>m \<in> set s. m = CHR ''.'' \<or> m = CHR ''e'' \<or> m = CHR ''E''"
proof -
  obtain i f e where a: "scan_number s = Some ((i, f, e), [])" and b: "f \<noteq> [] \<or> e \<noteq> []"
    and s: "s = i @ f @ e"
    using float_text_scan [OF assms] by blast
  from b show ?thesis
  proof
    assume f: "f \<noteq> []"
    then have "hd f = CHR ''.''" by (rule scan_number_parts(3) [OF a])
    moreover have "hd f \<in> set s" using f s by simp
    ultimately show ?thesis by metis
  next
    assume e: "e \<noteq> []"
    then have "hd e = CHR ''e'' \<or> hd e = CHR ''E''" by (rule scan_number_parts(4) [OF a])
    moreover have "hd e \<in> set s" using e s by simp
    ultimately show ?thesis by metis
  qed
qed

lemma int_digits_chars:
  "int_digits acc cs = Some n \<Longrightarrow> x \<in> set cs \<Longrightarrow> is_digit x \<or> x = CHR ''_''"
  by (induction acc cs rule: int_digits.induct) (auto split: if_splits list.splits)

lemma py_digits_chars: "py_digits cs = Some n \<Longrightarrow> x \<in> set cs \<Longrightarrow> is_digit x \<or> x = CHR ''_''"
  using int_digits_chars by (cases cs) (auto simp: py_digits_def split: if_splits)

lemma mark_not_digit:
  "m = CHR ''.'' \<or> m = CHR ''e'' \<or> m = CHR ''E'' \<Longrightarrow> \<not> is_digit m \<and> m \<noteq> CHR ''_'' \<and> m \<noteq> CHR ''-''
     \<and> m \<noteq> CHR ''+''"
  by (auto simp: is_digit_def code_of_def)

lemma py_int_float_text:
  assumes "json_float_text s"
  shows "py_int s = None"
proof -
  obtain c r where s: "s = c # r" and c: "is_digit c \<or> c = CHR ''-''"
    using float_text_head [OF assms] by blast
  obtain m where m: "m \<in> set s" and mk: "m = CHR ''.'' \<or> m = CHR ''e'' \<or> m = CHR ''E''"
    using float_text_mark [OF assms] by blast
  note md = mark_not_digit [OF mk]
  have h: "\<not> is_int_space (hd s)" and l: "\<not> is_int_space (last s)"
    using float_text_chars [OF assms, of "hd s"] float_text_chars [OF assms, of "last s"] s by simp_all
  have strip: "rev (dropWhile is_int_space (rev (dropWhile is_int_space s))) = s"
    using s h l by (intro strip_both_id) simp_all
  have cp: "c \<noteq> CHR ''+''" using c by (auto simp: is_digit_def code_of_def)
  show ?thesis
  proof (cases "c = CHR ''-''")
    case True
    then have "m \<in> set r" using m md s by auto
    then have "py_digits r = None" using py_digits_chars [of r _ m] md by (cases "py_digits r") auto
    then show ?thesis using strip s True by (simp add: py_int_def)
  next
    case False
    have "py_digits (c # r) = None"
      using py_digits_chars [of "c # r" _ m] m md s by (cases "py_digits (c # r)") auto
    then show ?thesis using strip s False cp by (simp add: py_int_def)
  qed
qed

lemma json_value_float:
  assumes "json_float_text s" and "pf s = Some x" and "value_stop rest"
  shows "json_value pf (Suc n) (s @ rest) = Some (PFloat x, rest)"
proof -
  obtain i f e where a: "scan_number s = Some ((i, f, e), [])" and b: "f \<noteq> [] \<or> e \<noteq> []"
    and s: "s = i @ f @ e"
    using float_text_scan [OF assms(1)] by blast
  obtain c r where cr: "s = c # r" and c: "is_digit c \<or> c = CHR ''-''"
    using float_text_head [OF assms(1)] by blast
  have ne: "c \<noteq> dquote" "c \<noteq> CHR ''{''" "c \<noteq> CHR ''[''" "c \<noteq> CHR ''n''" "c \<noteq> CHR ''t''" "c \<noteq> CHR ''f''"
    using c by (auto simp: is_digit_def code_of_def dquote_def)
  have num: "scan_number (c # r @ rest) = Some ((i, f, e), rest)"
    using scan_number_append [OF a assms(3)] cr by simp
  have p: "pf (i @ f @ e) = Some x" using assms(2) s by simp
  show ?thesis
    using ne num b p by (auto simp: cr)
qed

subsection \<open>Steps of the JSON scanner\<close>

lemma py_join_Cons: "py_join sep (x # xs) = (if xs = [] then x else x @ sep @ py_join sep xs)"
  by (cases xs) simp_all

lemma agtype_items_Nil_iff [simp]: "agtype_items fstr vs = [] \<longleftrightarrow> vs = []"
  by (cases vs) simp_all

lemma agtype_pairs_Nil_iff [simp]: "agtype_pairs fstr kvs = [] \<longleftrightarrow> kvs = []"
  by (cases kvs) auto

lemma join_items_Cons:
  "py_join '', '' (agtype_items fstr (v # vs)) =
     (if vs = [] then to_agtype_value fstr v
      else to_agtype_value fstr v @ '', '' @ py_join '', '' (agtype_items fstr vs))"
  by (simp add: py_join_Cons)

lemma join_pairs_Cons:
  "py_join '', '' (agtype_pairs fstr ((k, v) # kvs)) =
     dquote # k @ dquote # '': '' @ to_agtype_value fstr v @
       (if kvs = [] then [] else '', '' @ py_join '', '' (agtype_pairs fstr kvs))"
  by (simp add: py_join_Cons)

lemma starter_facts:
  "starter c \<Longrightarrow> \<not> is_json_ws c" "starter c \<Longrightarrow> c \<noteq> CHR '']''" "starter c \<Longrightarrow> c \<noteq> CHR ''}''"
  "starter c \<Longrightarrow> \<not> is_py_space c" "starter c \<Longrightarrow> c \<noteq> CHR '':''" "starter c \<Longrightarrow> c \<noteq> CHR '',''"
  by (auto simp: starter_def is_json_ws_def is_py_space_def is_digit_def code_of_def dquote_def)

lemma str_int_starter: "\<exists>c r. str_int i = c # r \<and> starter c"
  using str_int_hd [of i] by (auto simp: starter_def)

lemma encoding_starts:
  assumes "plain_value fstr pf v"
  shows "\<exists>c r. to_agtype_value fstr v = c # r \<and> starter c"
proof (cases v)
  case (PInt i)
  then show ?thesis using str_int_starter by simp
next
  case (PFloat x)
  then have "json_float_text (fstr x)" using assms by simp
  then show ?thesis using float_text_head [of "fstr x"] PFloat by (auto simp: starter_def)
qed (use assms in \<open>auto simp: starter_def\<close>)

lemma join_items_starts:
  "vs \<noteq> [] \<Longrightarrow> plain_items fstr pf vs \<Longrightarrow> \<exists>c r. py_join '', '' (agtype_items fstr vs) = c # r \<and> starter c"
proof (cases vs)
  case Nil
  then show "vs \<noteq> [] \<Longrightarrow> ?thesis" by simp
next
  case (Cons v vs')
  assume "plain_items fstr pf vs"
  then have "plain_value fstr pf v" using Cons by simp
  then obtain c r where "to_agtype_value fstr v = c # r" "starter c"
    using encoding_starts by blast
  then show ?thesis unfolding Cons join_items_Cons by auto
qed

lemma skip_ws_starter: "starter c \<Longrightarrow> skip_ws (c # r) = c # r"
  by (simp add: skip_ws_def starter_facts)

lemma skip_ws_space: "skip_ws (CHR '' '' # r) = skip_ws r"
  by (simp add: skip_ws_def is_json_ws_def)

lemma skip_ws_space_starter: "starter c \<Longrightarrow> skip_ws (CHR '' '' # c # r) = c # r"
  by (simp add: skip_ws_space skip_ws_starter)

lemma skip_ws_punct [simp]:
  "skip_ws (CHR '','' # r) = CHR '','' # r" "skip_ws (CHR '']'' # r) = CHR '']'' # r"
  "skip_ws (CHR ''}'' # r) = CHR ''}'' # r" "skip_ws (CHR '':'' # r) = CHR '':'' # r"
  "skip_ws [] = []"
  by (simp_all add: skip_ws_def is_json_ws_def)

lemma dquote_neq [simp]:
  "dquote \<noteq> CHR ''{''" "dquote \<noteq> CHR ''[''" "dquote \<noteq> CHR ''}''" "dquote \<noteq> CHR '']''"
  "dquote \<noteq> CHR '':''" "dquote \<noteq> CHR '',''" "dquote \<noteq> bslash" "\<not> code_of dquote < 0x20"
  by (simp_all add: dquote_def bslash_def code_of_def)

lemma skip_ws_dquote [simp]: "skip_ws (dquote # r) = dquote # r"
  by (simp add: skip_ws_def is_json_ws_def dquote_def)

lemma skip_ws_space_dquote [simp]: "skip_ws (CHR '' '' # dquote # r) = dquote # r"
  by (simp add: skip_ws_def is_json_ws_def dquote_def)

lemma scanstring_plain:
  "list_all (\<lambda>c. c \<noteq> dquote \<and> c \<noteq> bslash \<and> \<not> code_of c < 0x20) k
   \<Longrightarrow> scanstring (k @ dquote # rest) = Some (k, rest)"
  by (induction k) simp_all

lemma dict_set_fresh: "k \<notin> fst ` set d \<Longrightarrow> dict_set k v d = d @ [(k, v)]"
  by (induction d) auto

lemma dict_update_distinct:
  "distinct (map fst (d @ kvs)) \<Longrightarrow> dict_update d kvs = d @ kvs"
proof (induction kvs arbitrary: d)
  case Nil
  then show ?case by simp
next
  case (Cons kv kvs)
  obtain k v where kv: "kv = (k, v)" by (cases kv)
  have fresh: "k \<notin> fst ` set d" using Cons.prems kv by auto
  have "distinct (map fst ((d @ [(k, v)]) @ kvs))" using Cons.prems kv by simp
  then have "dict_update (d @ [(k, v)]) kvs = (d @ [(k, v)]) @ kvs" by (rule Cons.IH)
  then show ?case using kv fresh by (simp add: dict_set_fresh)
qed

lemma dict_of_pairs_distinct: "distinct (map fst kvs) \<Longrightarrow> dict_of_pairs kvs = kvs"
  using dict_update_distinct [of "[]" kvs] by (simp add: dict_of_pairs_def)

lemma value_stop_simps [simp]:
  "value_stop []" "value_stop (CHR '','' # r)" "value_stop (CHR '']'' # r)" "value_stop (CHR ''}'' # r)"
  by (simp_all add: value_stop_def)

lemma json_value_null: "json_value pf (Suc n) (''null'' @ ys) = Some (PNone, ys)"
  by (simp add: dquote_def)

lemma json_value_true: "json_value pf (Suc n) (''true'' @ ys) = Some (PBool True, ys)"
  by (simp add: dquote_def)

lemma json_value_false: "json_value pf (Suc n) (''false'' @ ys) = Some (PBool False, ys)"
  by (simp add: dquote_def)

lemma json_value_string:
  "json_value pf (Suc n) (dquote # escape_agtype_string s @ dquote # ys) = Some (PStr s, ys)"
  by (simp add: scanstring_escaped)

lemma json_value_empty_list: "json_value pf (Suc n) (''[]'' @ ys) = Some (PList [], ys)"
  by (simp add: dquote_def)

lemma json_value_empty_dict: "json_value pf (Suc n) (''{}'' @ ys) = Some (PDict [], ys)"
  by (simp add: dquote_def)

lemma json_value_list:
  assumes "starter c" and "json_array pf n (c # r) = Some (vs, ys)"
  shows "json_value pf (Suc n) (CHR ''['' # c # r) = Some (PList vs, ys)"
  using assms starter_facts(2) [OF assms(1)] by (simp add: skip_ws_starter dquote_def)

lemma json_value_dict:
  assumes "json_object pf n r = Some (kvs, ys)"
  shows "json_value pf (Suc n) (CHR ''{'' # dquote # r) = Some (PDict (dict_of_pairs kvs), ys)"
proof -
  have "CHR ''{'' \<noteq> dquote" by (simp add: dquote_def)
  then show ?thesis using assms by simp
qed

lemma json_array_last:
  assumes "json_value pf n (x @ CHR '']'' # ys) = Some (v, CHR '']'' # ys)"
  shows "json_array pf (Suc n) (x @ CHR '']'' # ys) = Some ([v], ys)"
  using assms by simp

lemma json_array_more:
  assumes "json_value pf n (x @ '', '' @ c # r) = Some (v, '', '' @ c # r)"
    and "starter c" and "json_array pf n (c # r) = Some (vs, ys)"
  shows "json_array pf (Suc n) (x @ '', '' @ c # r) = Some (v # vs, ys)"
  using assms by (simp add: skip_ws_space_starter)

lemma json_object_last:
  assumes "list_all (\<lambda>c. c \<noteq> dquote \<and> c \<noteq> bslash \<and> \<not> code_of c < 0x20) k"
    and "starter c"
    and "json_value pf n (c # x @ CHR ''}'' # ys) = Some (v, CHR ''}'' # ys)"
  shows "json_object pf (Suc n) (k @ dquote # '': '' @ c # x @ CHR ''}'' # ys) = Some ([(k, v)], ys)"
  using assms by (simp add: scanstring_plain skip_ws_space_starter)

lemma json_object_more:
  assumes "list_all (\<lambda>c. c \<noteq> dquote \<and> c \<noteq> bslash \<and> \<not> code_of c < 0x20) k"
    and "starter c"
    and "json_value pf n (c # x @ '', '' @ dquote # r) = Some (v, '', '' @ dquote # r)"
    and "json_object pf n r = Some (kvs, ys)"
  shows "json_object pf (Suc n) (k @ dquote # '': '' @ c # x @ '', '' @ dquote # r) = Some ((k, v) # kvs, ys)"
  using assms by (simp add: scanstring_plain skip_ws_space_starter)

subsection \<open>The JSON scanner reads an encoding back\<close>

lemma join_pairs_shape:
  "kvs \<noteq> [] \<Longrightarrow> \<exists>t. py_join '', '' (agtype_pairs fstr kvs) = dquote # t"
proof (cases kvs)
  case Nil
  then show "kvs \<noteq> [] \<Longrightarrow> ?thesis" by simp
next
  case (Cons kv kvs')
  obtain k v where "kv = (k, v)" by (cases kv)
  then show ?thesis unfolding Cons by (simp add: py_join_Cons del: json_value.simps json_array.simps json_object.simps)
qed

lemma encoding_not_Nil: "plain_value fstr pf v \<Longrightarrow> to_agtype_value fstr v \<noteq> []"
  using encoding_starts [of fstr pf v] by auto

lemma json_round_trip:
  fixes fstr :: "'f \<Rightarrow> string" and pf :: "string \<Rightarrow> 'f option"
  shows "plain_value fstr pf v \<Longrightarrow> length (to_agtype_value fstr v) \<le> n \<Longrightarrow> value_stop ys
           \<Longrightarrow> json_value pf n (to_agtype_value fstr v @ ys) = Some (v, ys)"
    and "vs \<noteq> [] \<Longrightarrow> plain_items fstr pf vs \<Longrightarrow> length (py_join '', '' (agtype_items fstr vs)) + 1 \<le> n
           \<Longrightarrow> json_array pf n (py_join '', '' (agtype_items fstr vs) @ CHR '']'' # ys) = Some (vs, ys)"
    and "kvs \<noteq> [] \<Longrightarrow> plain_pairs fstr pf kvs \<Longrightarrow> length (py_join '', '' (agtype_pairs fstr kvs)) \<le> n
           \<Longrightarrow> json_object pf n (tl (py_join '', '' (agtype_pairs fstr kvs)) @ CHR ''}'' # ys) = Some (kvs, ys)"
proof (induction fstr v and fstr vs and fstr kvs arbitrary: n ys and n ys and n ys
    rule: to_agtype_value_agtype_items_agtype_pairs.induct)
  case (1 fstr)
  then obtain m where "n = Suc m" by (cases n) auto
  then show ?case using json_value_null [of pf m ys] by (simp del: json_value.simps json_array.simps json_object.simps)
next
  case (2 fstr b)
  then obtain m where "n = Suc m" by (cases n; cases b) auto
  then show ?case using json_value_true [of pf m ys] json_value_false [of pf m ys] by (simp del: json_value.simps json_array.simps json_object.simps)
next
  case (3 fstr i)
  have "str_int i \<noteq> []" using str_int_hd [of i] by auto
  then obtain m where "n = Suc m" using 3(2) by (cases n) auto
  then show ?case using json_value_int [OF 3(3), of pf m i] by (simp del: json_value.simps json_array.simps json_object.simps)
next
  case (4 fstr x)
  have ft: "json_float_text (fstr x)" and rd: "pf (fstr x) = Some x" using 4(1) by simp_all
  have "fstr x \<noteq> []" using float_text_head [OF ft] by auto
  then obtain m where "n = Suc m" using 4(2) by (cases n) auto
  then show ?case
    using json_value_float [where pf = pf and s = "fstr x" and x = x and rest = ys and n = m] ft rd 4(3)
    by (simp del: json_value.simps json_array.simps json_object.simps)
next
  case (5 fstr s)
  then obtain m where "n = Suc m" by (cases n) auto
  then show ?case using json_value_string [of pf m s ys] by (simp del: json_value.simps json_array.simps json_object.simps)
next
  case (6 fstr vs)
  show ?case
  proof (cases "vs = []")
    case True
    obtain m where "n = Suc m" using 6(3) by (cases n) auto
    then show ?thesis using True json_value_empty_list [of pf m ys] by (simp del: json_value.simps json_array.simps json_object.simps)
  next
    case False
    have pl: "plain_items fstr pf vs" using 6(2) by simp
    obtain c r where j: "py_join '', '' (agtype_items fstr vs) = c # r" and c: "starter c"
      using join_items_starts [OF False pl] by blast
    obtain m where n: "n = Suc m" using 6(3) by (cases n) auto
    have len: "length (py_join '', '' (agtype_items fstr vs)) + 1 \<le> m" using 6(3) n by simp
    have "json_array pf m (py_join '', '' (agtype_items fstr vs) @ CHR '']'' # ys) = Some (vs, ys)"
      by (rule 6(1) [OF False pl len])
    then have "json_array pf m (c # r @ CHR '']'' # ys) = Some (vs, ys)" using j by (simp del: json_value.simps json_array.simps json_object.simps)
    then have "json_value pf (Suc m) (CHR ''['' # c # r @ CHR '']'' # ys) = Some (PList vs, ys)"
      by (rule json_value_list [OF c])
    then show ?thesis using n j by (simp del: json_value.simps json_array.simps json_object.simps)
  qed
next
  case (7 fstr kvs)
  show ?case
  proof (cases "kvs = []")
    case True
    obtain m where "n = Suc m" using 7(3) by (cases n) auto
    then show ?thesis using True json_value_empty_dict [of pf m ys] by (simp del: json_value.simps json_array.simps json_object.simps)
  next
    case False
    have pl: "plain_pairs fstr pf kvs" and d: "distinct (map fst kvs)" using 7(2) by simp_all
    obtain t where k: "py_join '', '' (agtype_pairs fstr kvs) = dquote # t"
      using join_pairs_shape [OF False] by blast
    obtain m where n: "n = Suc m" using 7(3) by (cases n) auto
    have len: "length (py_join '', '' (agtype_pairs fstr kvs)) \<le> m" using 7(3) n by simp
    have "json_object pf m (tl (py_join '', '' (agtype_pairs fstr kvs)) @ CHR ''}'' # ys) = Some (kvs, ys)"
      by (rule 7(1) [OF False pl len])
    then have "json_object pf m (t @ CHR ''}'' # ys) = Some (kvs, ys)" using k by (simp del: json_value.simps json_array.simps json_object.simps)
    then have "json_value pf (Suc m) (CHR ''{'' # dquote # t @ CHR ''}'' # ys)
                 = Some (PDict (dict_of_pairs kvs), ys)"
      by (rule json_value_dict)
    then show ?thesis using n k d by (simp add: dict_of_pairs_distinct del: json_value.simps json_array.simps json_object.simps)
  qed
next
  case (8 fstr s)
  then show ?case by (simp del: json_value.simps json_array.simps json_object.simps)
next
  case (9 fstr)
  then show ?case by (simp del: json_value.simps json_array.simps json_object.simps)
next
  case (10 fstr v vs)
  have pv: "plain_value fstr pf v" and pl: "plain_items fstr pf vs" using 10(4) by simp_all
  obtain m where n: "n = Suc m" using 10(5) by (cases n) auto
  show ?case
  proof (cases "vs = []")
    case True
    have len: "length (to_agtype_value fstr v) \<le> m" using 10(5) n True by (simp add: py_join_Cons)
    have "json_value pf m (to_agtype_value fstr v @ CHR '']'' # ys) = Some (v, CHR '']'' # ys)"
      by (rule 10(1) [OF pv len]) simp
    then have "json_array pf (Suc m) (to_agtype_value fstr v @ CHR '']'' # ys) = Some ([v], ys)"
      by (rule json_array_last)
    then show ?thesis using n True by (simp add: py_join_Cons del: json_value.simps json_array.simps json_object.simps)
  next
    case False
    obtain c r where j: "py_join '', '' (agtype_items fstr vs) = c # r" and c: "starter c"
      using join_items_starts [OF False pl] by blast
    have len: "length (to_agtype_value fstr v) \<le> m"
      and len2: "length (py_join '', '' (agtype_items fstr vs)) + 1 \<le> m"
      using 10(5) n False by (simp_all add: py_join_Cons)
    have a: "json_value pf m (to_agtype_value fstr v @ '', '' @ c # r @ CHR '']'' # ys)
               = Some (v, '', '' @ c # r @ CHR '']'' # ys)"
      by (rule 10(1) [OF pv len]) simp
    have "json_array pf m (py_join '', '' (agtype_items fstr vs) @ CHR '']'' # ys) = Some (vs, ys)"
      by (rule 10(2) [OF False pl len2])
    then have b: "json_array pf m (c # r @ CHR '']'' # ys) = Some (vs, ys)" using j by (simp del: json_value.simps json_array.simps json_object.simps)
    have "json_array pf (Suc m) (to_agtype_value fstr v @ '', '' @ c # r @ CHR '']'' # ys)
            = Some (v # vs, ys)"
      by (rule json_array_more [OF a c b])
    then show ?thesis using n False j by (simp add: py_join_Cons del: json_value.simps json_array.simps json_object.simps)
  qed
next
  case (11 fstr)
  then show ?case by (simp del: json_value.simps json_array.simps json_object.simps)
next
  case (12 fstr k v kvs)
  have pk: "list_all (\<lambda>c. c \<noteq> dquote \<and> c \<noteq> bslash \<and> \<not> code_of c < 0x20) k"
    and pv: "plain_value fstr pf v" and pl: "plain_pairs fstr pf kvs"
    using 12(4) by (simp_all add: plain_key_def)
  obtain c x where e: "to_agtype_value fstr v = c # x" and c: "starter c"
    using encoding_starts [OF pv] by blast
  obtain m where n: "n = Suc m" using 12(5) by (cases n) (auto simp: py_join_Cons split: if_splits)
  show ?case
  proof (cases "kvs = []")
    case True
    have len: "length (to_agtype_value fstr v) \<le> m" using 12(5) n True by (simp add: py_join_Cons)
    have "json_value pf m (to_agtype_value fstr v @ CHR ''}'' # ys) = Some (v, CHR ''}'' # ys)"
      by (rule 12(1) [OF pv len]) simp
    then have a: "json_value pf m (c # x @ CHR ''}'' # ys) = Some (v, CHR ''}'' # ys)"
      using e by simp
    have "json_object pf (Suc m) (k @ dquote # '': '' @ c # x @ CHR ''}'' # ys) = Some ([(k, v)], ys)"
      by (rule json_object_last [OF pk c a])
    then show ?thesis using n True e by (simp add: py_join_Cons del: json_value.simps json_array.simps json_object.simps)
  next
    case False
    obtain t where j: "py_join '', '' (agtype_pairs fstr kvs) = dquote # t"
      using join_pairs_shape [OF False] by blast
    have len: "length (to_agtype_value fstr v) \<le> m"
      and len2: "length (py_join '', '' (agtype_pairs fstr kvs)) \<le> m"
      using 12(5) n False by (simp_all add: py_join_Cons)
    have "json_value pf m (to_agtype_value fstr v @ '', '' @ dquote # t @ CHR ''}'' # ys)
            = Some (v, '', '' @ dquote # t @ CHR ''}'' # ys)"
      by (rule 12(1) [OF pv len]) simp
    then have a: "json_value pf m (c # x @ '', '' @ dquote # t @ CHR ''}'' # ys)
            = Some (v, '', '' @ dquote # t @ CHR ''}'' # ys)"
      using e by simp
    have "json_object pf m (tl (py_join '', '' (agtype_pairs fstr kvs)) @ CHR ''}'' # ys) = Some (kvs, ys)"
      by (rule 12(2) [OF False pl len2])
    then have b: "json_object pf m (t @ CHR ''}'' # ys) = Some (kvs, ys)" using j by (simp del: json_value.simps json_array.simps json_object.simps)
    have "json_object pf (Suc m) (k @ dquote # '': '' @ c # x @ '', '' @ dquote # t @ CHR ''}'' # ys)
            = Some ((k, v) # kvs, ys)"
      by (rule json_object_more [OF pk c a b])
    then show ?thesis using n False e j by (simp add: py_join_Cons del: json_value.simps json_array.simps json_object.simps)
  qed
qed

lemma json_loads_encoding:
  assumes "plain_value fstr pf v"
  shows "json_loads pf (to_agtype_value fstr v) = Some v"
proof -
  obtain c r where e: "to_agtype_value fstr v = c # r" and c: "starter c"
    using encoding_starts [OF assms] by blast
  have "json_value pf (2 * length (to_agtype_value fstr v) + 2) (to_agtype_value fstr v @ [])
          = Some (v, [])"
    by (rule json_round_trip(1) [OF assms]) simp_all
  then show ?thesis
    using e c by (simp add: json_loads_def skip_ws_starter)
qed

subsection \<open>An encoding carries no tag\<close>

lemma has_bracket_tag_append:
  "\<not> has_bracket_tag xs \<Longrightarrow> \<not> has_bracket_tag ys
   \<Longrightarrow> ys = [] \<or> (hd ys \<noteq> CHR '':'' \<and> \<not> is_word_char (hd ys))
   \<Longrightarrow> \<not> has_bracket_tag (xs @ ys)"
  by (induction xs) (auto simp: tag_follows_append)

lemma no_bracket_prefix:
  "\<forall>x\<in>set xs. x \<noteq> CHR '']'' \<and> x \<noteq> CHR ''}'' \<Longrightarrow> has_bracket_tag (xs @ ys) = has_bracket_tag ys"
  by (induction xs) auto

lemma tag_follows_needs_colon: "ys = [] \<or> hd ys \<noteq> CHR '':'' \<Longrightarrow> \<not> tag_follows ys"
  by (cases ys) (auto simp: tag_follows_def split: list.splits)

lemma hex_char_not_bracket: "k < 16 \<Longrightarrow> hex_char k \<noteq> CHR '']'' \<and> hex_char k \<noteq> CHR ''}''"
proof -
  assume "k < 16"
  then have "code_of (hex_char k) \<noteq> 93 \<and> code_of (hex_char k) \<noteq> 125"
    by (auto simp: hex_char_def code_of_def)
  then show ?thesis by (auto simp: code_of_def)
qed

lemma agtype_esc_shape: "agtype_esc c = [c] \<or> (\<exists>r. agtype_esc c = bslash # r)"
  by (auto simp: agtype_esc_def u_escape_def)

lemma u_escape_no_bracket: "x \<in> set (u_escape n) \<Longrightarrow> x \<noteq> CHR '']'' \<and> x \<noteq> CHR ''}''"
proof -
  assume x: "x \<in> set (u_escape n)"
  have h: "hex_char (m mod 16) \<noteq> CHR '']'' \<and> hex_char (m mod 16) \<noteq> CHR ''}''" for m
    by (rule hex_char_not_bracket) simp
  have b: "bslash \<noteq> CHR '']'' \<and> bslash \<noteq> CHR ''}''" by (simp add: bslash_def)
  from x consider "x = bslash" | "x = CHR ''u''" | "x = hex_char (n div 4096 mod 16)"
    | "x = hex_char (n div 256 mod 16)" | "x = hex_char (n div 16 mod 16)" | "x = hex_char (n mod 16)"
    unfolding u_escape_def by auto
  then show ?thesis
  proof cases
    case 1
    then show ?thesis using b by simp
  next
    case 2
    then show ?thesis by simp
  next
    case 3
    then show ?thesis using h [of "n div 4096"] by simp
  next
    case 4
    then show ?thesis using h [of "n div 256"] by simp
  next
    case 5
    then show ?thesis using h [of "n div 16"] by simp
  next
    case 6
    then show ?thesis using h [of n] by simp
  qed
qed

lemma agtype_esc_no_bracket:
  assumes "c \<noteq> CHR '']''" and "c \<noteq> CHR ''}''"
  shows "\<forall>x\<in>set (agtype_esc c). x \<noteq> CHR '']'' \<and> x \<noteq> CHR ''}''"
proof
  fix x
  assume x: "x \<in> set (agtype_esc c)"
  have b: "bslash \<noteq> CHR '']'' \<and> bslash \<noteq> CHR ''}''" by (simp add: bslash_def)
  have q: "dquote \<noteq> CHR '']'' \<and> dquote \<noteq> CHR ''}''" by (simp add: dquote_def)
  from x consider "x = bslash" | "x = dquote" | "x = CHR ''n''" | "x = CHR ''r''" | "x = CHR ''t''"
    | "x \<in> set (u_escape (code_of c))" | "x = c"
    unfolding agtype_esc_def by (auto split: if_splits)
  then show "x \<noteq> CHR '']'' \<and> x \<noteq> CHR ''}''"
  proof cases
    case 1
    then show ?thesis using b by simp
  next
    case 2
    then show ?thesis using q by simp
  next
    case 3
    then show ?thesis by simp
  next
    case 4
    then show ?thesis by simp
  next
    case 5
    then show ?thesis by simp
  next
    case 6
    then show ?thesis by (rule u_escape_no_bracket)
  next
    case 7
    then show ?thesis using assms by simp
  qed
qed

lemma agtype_esc_bracket: "c = CHR '']'' \<or> c = CHR ''}'' \<Longrightarrow> agtype_esc c = [c]"
proof -
  have "agtype_esc (CHR '']'') = [CHR '']'']" "agtype_esc (CHR ''}'') = [CHR ''}'']"
    by code_simp+
  then show "c = CHR '']'' \<or> c = CHR ''}'' \<Longrightarrow> agtype_esc c = [c]" by auto
qed

lemma escaped_head:
  assumes "\<not> Q bslash" and "ys = [] \<or> \<not> Q (hd ys)"
    and "escape_agtype_string cs @ ys = x # r" and "Q x"
  shows "\<exists>cs'. cs = x # cs' \<and> r = escape_agtype_string cs' @ ys"
proof (cases cs)
  case Nil
  then show ?thesis using assms by auto
next
  case (Cons a cs')
  from agtype_esc_shape [of a] show ?thesis
  proof
    assume "agtype_esc a = [a]"
    then show ?thesis using assms(3) Cons by (simp add: escape_agtype_string_Cons)
  next
    assume "\<exists>t. agtype_esc a = bslash # t"
    then show ?thesis using assms(1,3,4) Cons by (auto simp: escape_agtype_string_Cons)
  qed
qed

lemma bslash_not_tag: "bslash \<noteq> CHR '':''" "\<not> is_word_char bslash"
  by (auto simp: bslash_def is_word_char_def is_ident_char_def is_digit_def is_ascii_letter_def code_of_def)

lemma tag_follows_escaped:
  assumes "ys = [] \<or> (hd ys \<noteq> CHR '':'' \<and> \<not> is_word_char (hd ys))"
    and "tag_follows (escape_agtype_string cs @ ys)"
  shows "tag_follows cs"
proof -
  obtain w r where e: "escape_agtype_string cs @ ys = CHR '':'' # CHR '':'' # w # r" and w: "is_word_char w"
    using assms(2) by (auto simp: tag_follows_def split: list.splits)
  obtain cs1 where c1: "cs = CHR '':'' # cs1" and e1: "CHR '':'' # w # r = escape_agtype_string cs1 @ ys"
    using escaped_head [of "\<lambda>c. c = CHR '':''" ys cs "CHR '':''" "CHR '':'' # w # r"] assms(1) e bslash_not_tag
    by auto
  obtain cs2 where c2: "cs1 = CHR '':'' # cs2" and e2: "w # r = escape_agtype_string cs2 @ ys"
    using escaped_head [of "\<lambda>c. c = CHR '':''" ys cs1 "CHR '':''" "w # r"] assms(1) e1 bslash_not_tag
    by auto
  obtain cs3 where c3: "cs2 = w # cs3"
    using escaped_head [of is_word_char ys cs2 w r] assms(1) e2 w bslash_not_tag
    by auto
  show ?thesis using c1 c2 c3 w by (simp add: tag_follows_def)
qed

lemma has_bracket_tag_escaped:
  assumes "ys = [] \<or> (hd ys \<noteq> CHR '':'' \<and> \<not> is_word_char (hd ys))" and "\<not> has_bracket_tag ys"
  shows "\<not> has_bracket_tag s \<Longrightarrow> \<not> has_bracket_tag (escape_agtype_string s @ ys)"
proof (induction s)
  case Nil
  then show ?case using assms(2) by simp
next
  case (Cons c s)
  have IH: "\<not> has_bracket_tag (escape_agtype_string s @ ys)" using Cons by auto
  show ?case
  proof (cases "c = CHR '']'' \<or> c = CHR ''}''")
    case True
    have "\<not> tag_follows s" using Cons.prems True by auto
    then have "\<not> tag_follows (escape_agtype_string s @ ys)"
      using tag_follows_escaped [OF assms(1)] by blast
    then show ?thesis
      using IH True by (auto simp: escape_agtype_string_Cons agtype_esc_bracket)
  next
    case False
    then have "has_bracket_tag (agtype_esc c @ escape_agtype_string s @ ys)
                 = has_bracket_tag (escape_agtype_string s @ ys)"
      by (intro no_bracket_prefix agtype_esc_no_bracket) auto
    then show ?thesis using IH by (simp add: escape_agtype_string_Cons)
  qed
qed

lemma digit_not_bracket: "is_digit c \<Longrightarrow> c \<noteq> CHR '']'' \<and> c \<noteq> CHR ''}'' \<and> c \<noteq> CHR '':''"
  by (auto simp: is_digit_def code_of_def)

lemma str_int_chars: "x \<in> set (str_int i) \<Longrightarrow> x \<noteq> CHR '']'' \<and> x \<noteq> CHR ''}'' \<and> x \<noteq> CHR '':''"
proof -
  assume x: "x \<in> set (str_int i)"
  have "\<forall>y\<in>set (str_nat n). is_digit y" for n
    using str_nat_digits [of n] by (simp add: list_all_iff)
  then have "is_digit x \<or> x = CHR ''-''"
    using x by (auto simp: str_int_def split: if_splits)
  then show ?thesis using digit_not_bracket by auto
qed

lemma dquote_not_tag [simp]: "\<not> is_word_char dquote"
  by (auto simp: dquote_def is_word_char_def is_ident_char_def is_digit_def is_ascii_letter_def code_of_def)

lemma punct_not_word [simp]:
  "\<not> is_word_char (CHR '']'')" "\<not> is_word_char (CHR ''}'')" "\<not> is_word_char (CHR '','')"
  by (auto simp: is_word_char_def is_ident_char_def is_digit_def is_ascii_letter_def code_of_def)

lemma encoding_no_bracket_tag:
  fixes fstr :: "'f \<Rightarrow> string"
  shows "plain_value fstr pf v \<Longrightarrow> \<not> has_bracket_tag ys
           \<Longrightarrow> ys = [] \<or> (hd ys \<noteq> CHR '':'' \<and> \<not> is_word_char (hd ys))
           \<Longrightarrow> \<not> has_bracket_tag (to_agtype_value fstr v @ ys)"
    and "plain_items fstr pf vs \<Longrightarrow> \<not> has_bracket_tag ys
           \<Longrightarrow> ys = [] \<or> (hd ys \<noteq> CHR '':'' \<and> \<not> is_word_char (hd ys))
           \<Longrightarrow> \<not> has_bracket_tag (py_join '', '' (agtype_items fstr vs) @ ys)"
    and "plain_pairs fstr pf kvs \<Longrightarrow> \<not> has_bracket_tag ys
           \<Longrightarrow> ys = [] \<or> (hd ys \<noteq> CHR '':'' \<and> \<not> is_word_char (hd ys))
           \<Longrightarrow> \<not> has_bracket_tag (py_join '', '' (agtype_pairs fstr kvs) @ ys)"
proof (induction fstr v and fstr vs and fstr kvs arbitrary: ys and ys and ys
    rule: to_agtype_value_agtype_items_agtype_pairs.induct)
  case (1 fstr)
  then show ?case by simp
next
  case (2 fstr b)
  then show ?case by simp
next
  case (3 fstr i)
  have "has_bracket_tag (str_int i @ ys) = has_bracket_tag ys"
    using str_int_chars [of _ i] by (intro no_bracket_prefix) blast
  then show ?case using 3 by simp
next
  case (4 fstr x)
  have "json_float_text (fstr x)" using 4(1) by simp
  then have "has_bracket_tag (fstr x @ ys) = has_bracket_tag ys"
    using float_text_chars [of "fstr x"] by (intro no_bracket_prefix) blast
  then show ?case using 4 by simp
next
  case (5 fstr s)
  have "\<not> has_bracket_tag (dquote # ys)" using 5(2) by simp
  then have "\<not> has_bracket_tag (escape_agtype_string s @ dquote # ys)"
    using 5(1) by (intro has_bracket_tag_escaped) simp_all
  then show ?case by simp
next
  case (6 fstr vs)
  have "\<not> tag_follows ys" using 6(4) by (intro tag_follows_needs_colon) auto
  then have "\<not> has_bracket_tag (CHR '']'' # ys)" using 6(3) by simp
  then have "\<not> has_bracket_tag (py_join '', '' (agtype_items fstr vs) @ CHR '']'' # ys)"
    using 6(2) by (intro 6(1)) simp_all
  then show ?case by simp
next
  case (7 fstr kvs)
  have "\<not> tag_follows ys" using 7(4) by (intro tag_follows_needs_colon) auto
  then have "\<not> has_bracket_tag (CHR ''}'' # ys)" using 7(3) by simp
  then have "\<not> has_bracket_tag (py_join '', '' (agtype_pairs fstr kvs) @ CHR ''}'' # ys)"
    using 7(2) by (intro 7(1)) simp_all
  then show ?case by simp
next
  case (8 fstr s)
  then show ?case by simp
next
  case (9 fstr)
  then show ?case by simp
next
  case (10 fstr v vs)
  have pv: "plain_value fstr pf v" and pl: "plain_items fstr pf vs" using 10(3) by simp_all
  show ?case
  proof (cases "vs = []")
    case True
    have "\<not> has_bracket_tag (to_agtype_value fstr v @ ys)"
      by (rule 10(1) [OF pv 10(4) 10(5)])
    then show ?thesis using True by simp
  next
    case False
    have "\<not> has_bracket_tag (py_join '', '' (agtype_items fstr vs) @ ys)"
      by (rule 10(2) [OF pl 10(4) 10(5)])
    then have "\<not> has_bracket_tag ('', '' @ py_join '', '' (agtype_items fstr vs) @ ys)"
      by simp
    then have "\<not> has_bracket_tag (to_agtype_value fstr v @ '', '' @ py_join '', '' (agtype_items fstr vs) @ ys)"
      by (intro 10(1) [OF pv]) simp_all
    then show ?thesis using False by (simp add: py_join_Cons)
  qed
next
  case (11 fstr)
  then show ?case by simp
next
  case (12 fstr k v kvs)
  have pk: "\<not> has_bracket_tag k" and pv: "plain_value fstr pf v" and pl: "plain_pairs fstr pf kvs"
    using 12(3) by (simp_all add: plain_key_def)
  have tail: "\<not> has_bracket_tag (to_agtype_value fstr v @
      (if kvs = [] then [] else '', '' @ py_join '', '' (agtype_pairs fstr kvs)) @ ys)"
  proof (cases "kvs = []")
    case True
    have "\<not> has_bracket_tag (to_agtype_value fstr v @ ys)"
      by (rule 12(1) [OF pv 12(4) 12(5)])
    then show ?thesis using True by simp
  next
    case False
    have "\<not> has_bracket_tag (py_join '', '' (agtype_pairs fstr kvs) @ ys)"
      by (rule 12(2) [OF pl 12(4) 12(5)])
    then have "\<not> has_bracket_tag ('', '' @ py_join '', '' (agtype_pairs fstr kvs) @ ys)"
      by simp
    then have "\<not> has_bracket_tag (to_agtype_value fstr v @ '', '' @ py_join '', '' (agtype_pairs fstr kvs) @ ys)"
      by (intro 12(1) [OF pv]) simp_all
    then show ?thesis using False by simp
  qed
  then have "\<not> has_bracket_tag (dquote # '': '' @ to_agtype_value fstr v @
      (if kvs = [] then [] else '', '' @ py_join '', '' (agtype_pairs fstr kvs)) @ ys)"
    by simp
  then have "\<not> has_bracket_tag (k @ dquote # '': '' @ to_agtype_value fstr v @
      (if kvs = [] then [] else '', '' @ py_join '', '' (agtype_pairs fstr kvs)) @ ys)"
    using pk by (intro has_bracket_tag_append) simp_all
  then show ?case by (cases "kvs = []") (simp_all add: py_join_Cons)
qed

lemma dropWhile_last: "dropWhile P r = [x] \<Longrightarrow> r \<noteq> [] \<and> last r = x"
proof -
  assume d: "dropWhile P r = [x]"
  have "r = takeWhile P r @ dropWhile P r" by simp
  then have "r = takeWhile P r @ [x]" using d by simp
  then show ?thesis by (metis last_snoc snoc_eq_iff_butlast)
qed

lemma dropWhile_Nil_last: "dropWhile P r = [] \<Longrightarrow> r \<noteq> [] \<Longrightarrow> P (last r)"
  by (induction r) (auto split: if_splits)

lemma trailing_tag_last:
  assumes "trailing_tag cs"
  shows "cs \<noteq> [] \<and> (is_word_char (last cs) \<or> last cs = newline)"
proof -
  obtain w r where cs: "cs = CHR '':'' # w # r" and w: "is_word_char w"
    and e: "at_text_end (dropWhile is_word_char r)"
    using assms by (auto simp: trailing_tag_def split: list.splits)
  show ?thesis
  proof (cases "r = []")
    case True
    then show ?thesis using cs w by simp
  next
    case False
    from e have "dropWhile is_word_char r = [] \<or> dropWhile is_word_char r = [newline]"
      by (simp add: at_text_end_def)
    then have "is_word_char (last r) \<or> last r = newline"
    proof
      assume "dropWhile is_word_char r = []"
      then show ?thesis using dropWhile_Nil_last [of is_word_char r] False by simp
    next
      assume "dropWhile is_word_char r = [newline]"
      then show ?thesis using dropWhile_last [of is_word_char r newline] by simp
    qed
    then show ?thesis using cs False by simp
  qed
qed

lemma strip_trailing_tag_id:
  "s \<noteq> [] \<Longrightarrow> \<not> is_word_char (last s) \<Longrightarrow> last s \<noteq> newline \<Longrightarrow> strip_trailing_tag s = s"
proof (induction s)
  case Nil
  then show ?case by simp
next
  case (Cons c s)
  show ?case
  proof (cases "s = []")
    case True
    then show ?thesis by (simp add: trailing_tag_def)
  next
    case False
    then have "\<not> trailing_tag s" using trailing_tag_last [of s] Cons.prems by auto
    then show ?thesis using Cons False by simp
  qed
qed

lemma strip_trailing_tag_no_colon: "CHR '':'' \<notin> set s \<Longrightarrow> strip_trailing_tag s = s"
  by (induction s) auto

lemma py_strip_id: "s \<noteq> [] \<Longrightarrow> \<not> is_py_space (hd s) \<Longrightarrow> \<not> is_py_space (last s) \<Longrightarrow> py_strip s = s"
  unfolding py_strip_def by (rule strip_both_id)

lemma digit_not_py_space: "is_digit c \<Longrightarrow> \<not> is_py_space c"
  by (auto simp: is_digit_def is_py_space_def)

lemma str_int_last: "is_digit (last (str_int i))"
  using str_nat_last_digit [of "nat (- i)"] str_nat_last_digit [of "nat i"]
  by (simp add: str_int_def)

lemma dquote_ends: "\<not> is_py_space dquote" "dquote \<noteq> newline"
  by (simp_all add: is_py_space_def code_of_def dquote_def newline_def)

lemma encoding_ends:
  assumes "plain_value fstr pf v"
  shows "\<not> is_py_space (last (to_agtype_value fstr v))
         \<and> (CHR '':'' \<notin> set (to_agtype_value fstr v)
            \<or> (\<not> is_word_char (last (to_agtype_value fstr v)) \<and> last (to_agtype_value fstr v) \<noteq> newline))"
proof (cases v)
  case PNone
  then show ?thesis by (simp add: is_py_space_def code_of_def)
next
  case (PBool b)
  then show ?thesis by (simp add: is_py_space_def code_of_def)
next
  case (PInt i)
  then show ?thesis
    using str_int_last [of i] str_int_chars [of "CHR '':''" i] by (auto simp: digit_not_py_space)
next
  case (PFloat x)
  then have ft: "json_float_text (fstr x)" using assms by simp
  then have "fstr x \<noteq> []" using float_text_head [of "fstr x"] by auto
  then have "last (fstr x) \<in> set (fstr x)" by simp
  then have "\<not> is_py_space (last (fstr x))" using float_text_chars [OF ft] by blast
  moreover have "CHR '':'' \<notin> set (fstr x)" using float_text_chars [OF ft, of "CHR '':''"] by blast
  ultimately show ?thesis using PFloat by simp
next
  case (PStr s)
  then show ?thesis by (simp add: dquote_ends)
next
  case (PList vs)
  then show ?thesis by (simp add: is_py_space_def code_of_def newline_def)
next
  case (PDict kvs)
  then show ?thesis by (simp add: is_py_space_def code_of_def newline_def)
next
  case (PObj s)
  then show ?thesis using assms by simp
qed

lemma strip_encoding:
  assumes "plain_value fstr pf v"
  shows "strip_agtype_suffixes (to_agtype_value fstr v) = to_agtype_value fstr v"
proof -
  let ?e = "to_agtype_value fstr v"
  obtain c r where e: "?e = c # r" and c: "starter c"
    using encoding_starts [OF assms] by blast
  have ne: "?e \<noteq> []" and h: "\<not> is_py_space (hd ?e)" using e c by (simp_all add: starter_facts)
  have l: "\<not> is_py_space (last ?e)" using encoding_ends [OF assms] by blast
  have s1: "py_strip ?e = ?e" by (rule py_strip_id [OF ne h l])
  have "\<not> has_bracket_tag (?e @ [])" by (rule encoding_no_bracket_tag(1) [OF assms]) simp_all
  then have s2: "strip_bracket_tags ?e = ?e" by (simp add: strip_bracket_tags_id)
  have s3: "strip_trailing_tag ?e = ?e"
    using encoding_ends [OF assms] strip_trailing_tag_id [OF ne] strip_trailing_tag_no_colon
    by blast
  show ?thesis by (simp add: strip_agtype_suffixes_def s1 s2 s3)
qed

lemma json_gate_encoding:
  "plain_value fstr pf v
   \<Longrightarrow> json_gate (to_agtype_value fstr v) \<longleftrightarrow> (\<forall>i. v \<noteq> PInt i) \<and> (\<forall>x. v \<noteq> PFloat x)"
proof (cases v)
  case (PFloat x)
  assume "plain_value fstr pf v"
  then have "json_float_text (fstr x)" using PFloat by simp
  then obtain c r where s: "fstr x = c # r" and c: "is_digit c \<or> c = CHR ''-''"
    using float_text_head by blast
  have "\<not> json_gate (c # r)"
    using c by (auto simp: json_gate_def is_digit_def code_of_def dquote_def)
  then show ?thesis using PFloat s by simp
next
  case (PInt i)
  obtain c r where s: "str_int i = c # r" and c: "is_digit c \<or> c = CHR ''-''"
    using str_int_hd by blast
  have "\<not> json_gate (c # r)"
    using c by (auto simp: json_gate_def is_digit_def code_of_def dquote_def)
  then show ?thesis using PInt s by simp
qed (auto simp: json_gate_def)

lemma normalize_record_id: "\<not> is_record d \<Longrightarrow> normalize_record d = d"
  by (auto simp: normalize_record_def is_record_def)

lemma normalize_items_id:
  "list_all (\<lambda>i. case i of PDict d \<Rightarrow> \<not> is_record d | _ \<Rightarrow> True) items \<Longrightarrow> map normalize_item items = items"
  by (induction items)
     (auto simp: normalize_item_def normalize_record_id split: pyval.splits)

lemma decoded_json_unnormalized: "unnormalized v \<Longrightarrow> decoded_json v = wrapped v"
  by (cases v)
     (simp_all add: unnormalized_def decoded_json_def wrapped_def normalize_items_id
        normalize_record_id)

lemma parse_encoding:
  assumes "plain_value fstr pf v"
  shows "parse_agtype_result pf (CStr (to_agtype_value fstr v)) return_type = decoded_json v"
proof -
  note gate = json_gate_encoding [OF assms]
  note strip = strip_encoding [OF assms]
  show ?thesis
  proof (cases v)
    case (PInt i)
    then have "\<not> json_gate (to_agtype_value fstr v)" using gate by simp
    then show ?thesis
      using PInt strip
      by (simp add: parse_agtype_result_def parse_agtype_text_def py_int_str_int decoded_json_def)
  next
    case (PFloat x)
    then have ng: "\<not> json_gate (to_agtype_value fstr v)" using gate by simp
    have ft: "json_float_text (fstr x)" and rd: "pf (fstr x) = Some x" using assms PFloat by simp_all
    show ?thesis
      using PFloat strip ng rd py_int_float_text [OF ft]
      by (simp add: parse_agtype_result_def parse_agtype_text_def decoded_json_def)
  next
    case PNone
    then have "json_gate (to_agtype_value fstr v)" using gate by simp
    then show ?thesis
      using PNone strip json_loads_encoding [OF assms]
      by (simp add: parse_agtype_result_def parse_agtype_text_def decoded_json_def)
  next
    case (PBool b)
    then have "json_gate (to_agtype_value fstr v)" using gate by simp
    then show ?thesis
      using PBool strip json_loads_encoding [OF assms]
      by (simp add: parse_agtype_result_def parse_agtype_text_def decoded_json_def)
  next
    case (PStr s)
    then have "json_gate (to_agtype_value fstr v)" using gate by simp
    then show ?thesis
      using PStr strip json_loads_encoding [OF assms]
      by (simp add: parse_agtype_result_def parse_agtype_text_def decoded_json_def)
  next
    case (PList vs)
    then have "json_gate (to_agtype_value fstr v)" using gate by simp
    then show ?thesis
      using PList strip json_loads_encoding [OF assms]
      by (simp add: parse_agtype_result_def parse_agtype_text_def decoded_json_def)
  next
    case (PDict kvs)
    then have "json_gate (to_agtype_value fstr v)" using gate by simp
    then show ?thesis
      using PDict strip json_loads_encoding [OF assms]
      by (simp add: parse_agtype_result_def parse_agtype_text_def decoded_json_def)
  next
    case (PObj s)
    then show ?thesis using assms by simp
  qed
qed

subsection \<open>When the trailing tag is removed\<close>

lemma at_text_end_stop: "at_text_end u \<Longrightarrow> u = [] \<or> \<not> is_word_char (hd u)"
proof -
  have "\<not> is_word_char newline"
    by (simp add: newline_def is_word_char_def is_ident_char_def is_digit_def is_ascii_letter_def
        code_of_def)
  then show "at_text_end u \<Longrightarrow> u = [] \<or> \<not> is_word_char (hd u)"
    by (auto simp: at_text_end_def)
qed

lemma colon_not_word: "\<not> is_word_char (CHR '':'')"
  by (simp add: is_word_char_def is_ident_char_def is_digit_def is_ascii_letter_def code_of_def)

lemma dropWhile_keeps: "\<not> P x \<Longrightarrow> Suc (length b) \<le> length (dropWhile P (a @ x # b))"
  by (induction a) auto

lemma no_tag_before_tag: "\<not> trailing_tag (p @ ''::'' @ w @ u)"
proof (cases p)
  case Nil
  then show ?thesis by (simp add: trailing_tag_def colon_not_word)
next
  case (Cons x p1)
  show ?thesis
  proof (cases p1)
    case Nil
    then show ?thesis using Cons by (simp add: trailing_tag_def colon_not_word)
  next
    case (Cons y p2)
    have "Suc (length (CHR '':'' # w @ u)) \<le> length (dropWhile is_word_char (p2 @ CHR '':'' # CHR '':'' # w @ u))"
      by (rule dropWhile_keeps [where P = is_word_char, OF colon_not_word])
    moreover have "at_text_end d \<Longrightarrow> length d \<le> 1" for d
      by (auto simp: at_text_end_def)
    ultimately have "\<not> at_text_end (dropWhile is_word_char (p2 @ CHR '':'' # CHR '':'' # w @ u))"
      by fastforce
    then show ?thesis using \<open>p = x # p1\<close> Cons by (simp add: trailing_tag_def)
  qed
qed

lemma strip_trailing_tag_removes:
  assumes "w \<noteq> []" and "list_all is_word_char w" and "at_text_end u"
  shows "strip_trailing_tag (p @ ''::'' @ w @ u) = p @ u"
proof (induction p)
  case Nil
  obtain w0 w1 where w: "w = w0 # w1" using assms(1) by (cases w) auto
  have w0: "is_word_char w0" and w1: "list_all is_word_char w1" using assms(2) w by simp_all
  have run1: "dropWhile is_word_char (w1 @ u) = u"
    by (rule dropWhile_run [OF w1 at_text_end_stop [OF assms(3)]])
  have run: "dropWhile is_word_char (w @ u) = u"
    by (rule dropWhile_run [OF assms(2) at_text_end_stop [OF assms(3)]])
  have "trailing_tag (CHR '':'' # w @ u)"
    using w w0 run1 assms(3) by (simp add: trailing_tag_def)
  then show ?case using run by simp
next
  case (Cons c p)
  have "\<not> trailing_tag (p @ ''::'' @ w @ u)" by (rule no_tag_before_tag)
  then show ?case using Cons by simp
qed

lemma py_strip_trims:
  assumes "list_all is_py_space a" and "list_all is_py_space b"
    and "m = [] \<or> (\<not> is_py_space (hd m) \<and> \<not> is_py_space (last m))"
  shows "py_strip (a @ m @ b) = m"
proof (cases "m = []")
  case True
  have "list_all is_py_space (a @ b)" using assms(1,2) by simp
  then have "dropWhile is_py_space ((a @ b) @ []) = dropWhile is_py_space []"
    by (rule dropWhile_all)
  then have d: "dropWhile is_py_space (a @ b) = []" by (simp del: dropWhile_eq_Nil_conv)
  have "py_strip (a @ m @ b) = rev (dropWhile is_py_space (rev (dropWhile is_py_space (a @ b))))"
    using True by (simp add: py_strip_def)
  also have "\<dots> = []" unfolding d by simp
  finally show ?thesis using True by simp
next
  case False
  then have h: "\<not> is_py_space (hd m)" and l: "\<not> is_py_space (last m)" using assms(3) by simp_all
  have "dropWhile is_py_space (a @ m @ b) = dropWhile is_py_space (m @ b)"
    by (rule dropWhile_all [OF assms(1)])
  also have "\<dots> = m @ b" using False h by (intro dropWhile_id) simp_all
  finally have front: "dropWhile is_py_space (a @ m @ b) = m @ b" .
  have rb: "list_all is_py_space (rev b)" using assms(2) by (simp add: list_all_iff)
  have "dropWhile is_py_space (rev b @ rev m) = dropWhile is_py_space (rev m)"
    by (rule dropWhile_all [OF rb])
  also have "\<dots> = rev m" using False l by (intro dropWhile_id) (simp_all add: hd_rev)
  finally show ?thesis by (simp add: py_strip_def front)
qed

section \<open>The claims\<close>

subsection \<open>C3: the dirty set\<close>

text \<open>
  Claim C3. An entity constructed without a database binding (\<open>_db\<close> absent) starts with
  its dirty set equal to the set of the persisted field names of its class, and one
  constructed with a database binding starts with an empty dirty set; an entity hydrated
  from a database record (\<open>dict_to_model\<close>) has an empty dirty set; after clearing
  (\<open>mark_clean\<close>) the dirty set is empty; and assigning a persisted field \<open>x\<close> of a pydantic
  class succeeds and leaves \<open>x\<close> in the dirty set.
\<close>

theorem dirty_set_lifecycle:
  "(new_entity cl cls kw = Inr e \<longrightarrow>
      age_dirty e = (if kw_db kw = None then set (data_fields (mc_fields (class_def cl cls))) else {}))
   \<and> (dict_to_model cl data cls db g = Inr e2 \<longrightarrow> age_dirty e2 = {})
   \<and> age_dirty (mark_clean e3) = {}
   \<and> (well_formed_class (class_def cl (e_class e4)) \<and> instance_of_class cl e4 \<and> x \<in> set (age_fields e4)
        \<longrightarrow> (\<exists>e'. setattr_entity cl e4 x v = Inr e' \<and> x \<in> age_dirty e'))"
  using new_entity_dirty [of cl cls kw e] dict_to_model_dirty [of cl data cls db g e2]
    setattr_field_dirty [of cl e4 x v]
  by (simp add: mark_clean_def)

theorem dirty_set_lifecycle_witness:
  "new_entity demo_classes 0 (plain_kwargs [(''name'', PStr ''Test''), (''age'', PInt 25)]) = Inr demo_person
   \<and> age_dirty demo_person = {''name'', ''age''}
   \<and> dict_to_model demo_classes [(''properties'', PDict [(''name'', PStr ''Test''), (''age'', PInt 25)])] 0
        (Some 1) (Some demo_graph)
       = Inr (set_graph (Some demo_graph) (set_db (Some 1) (set_dirty {} (set_label (Some ''PersonRel'') demo_person))))
   \<and> age_dirty (set_graph (Some demo_graph) (set_db (Some 1) (set_dirty {} (set_label (Some ''PersonRel'') demo_person)))) = {}
   \<and> age_dirty (mark_clean demo_person) = {}
   \<and> well_formed_class (class_def demo_classes (e_class (mark_clean demo_person)))
   \<and> instance_of_class demo_classes (mark_clean demo_person)
   \<and> ''age'' \<in> set (age_fields (mark_clean demo_person))
   \<and> (\<exists>e'. setattr_entity demo_classes (mark_clean demo_person) ''age'' (PInt 26) = Inr e' \<and> ''age'' \<in> age_dirty e')"
proof -
  have a: "new_entity demo_classes 0 (plain_kwargs [(''name'', PStr ''Test''), (''age'', PInt 25)]) = Inr demo_person"
    by (simp add: new_entity_def demo_classes_def person_class_def plain_kwargs_def demo_person_def
        data_fields_def relationship_fields_def dict_has_def truthy_def class_label_def Let_def)
  have lab: "mc_label (class_def demo_classes 0) = Some ''PersonRel''"
    by (simp add: demo_classes_def person_class_def)
  have gid: "set_graph_id None demo_person = demo_person"
    by (simp add: set_graph_id_def demo_person_def)
  have b: "dict_to_model demo_classes [(''properties'', PDict [(''name'', PStr ''Test''), (''age'', PInt 25)])] 0
        (Some 1) (Some demo_graph)
       = Inr (set_graph (Some demo_graph) (set_db (Some 1) (set_dirty {} (set_label (Some ''PersonRel'') demo_person))))"
    unfolding dict_to_model_def
    by (simp add: a lab gid Let_def dict_has_def as_int_def)
  have c: "well_formed_class (class_def demo_classes (e_class (mark_clean demo_person)))"
    by (simp add: well_formed_class_def demo_classes_def person_class_def starts_with_def)
  have d: "instance_of_class demo_classes (mark_clean demo_person)"
    by (simp add: instance_of_class_def demo_classes_def person_class_def demo_person_def
        mark_clean_def data_fields_def)
  have e: "''age'' \<in> set (age_fields (mark_clean demo_person))"
    by (simp add: mark_clean_def demo_person_def)
  have kdb: "kw_db (plain_kwargs [(''name'', PStr ''Test''), (''age'', PInt 25)]) = None"
    by (simp add: plain_kwargs_def)
  have dirty0: "set (data_fields (mc_fields (class_def demo_classes 0))) = {''name'', ''age''}"
    by (auto simp: demo_classes_def person_class_def data_fields_def)
  show ?thesis
    using dirty_set_lifecycle [of demo_classes 0 "plain_kwargs [(''name'', PStr ''Test''), (''age'', PInt 25)]"
        demo_person "[(''properties'', PDict [(''name'', PStr ''Test''), (''age'', PInt 25)])]" "Some 1"
        "Some demo_graph"
        "set_graph (Some demo_graph) (set_db (Some 1) (set_dirty {} (set_label (Some ''PersonRel'') demo_person)))"
        demo_person "mark_clean demo_person" "''age''" "PInt 26"]
      a b c d e kdb dirty0
    by simp
qed

subsection \<open>C4: the order of the clauses\<close>

text \<open>
  Claim C4. For every query-builder state, \<open>build()\<close> emits the clauses in the fixed order
  MATCH, then WHERE only if filters exist (and only if the substitution of the bind
  variables does not raise), then RETURN (the projection fields if any are set, else the
  bare pattern variable \<open>n\<close>), then ORDER BY only if sort keys exist, then SKIP only if
  positive and LIMIT only if set; and \<open>sort("n.age").limit(2, skip=1).build()\<close> is MATCH,
  RETURN n, ORDER BY n.age, SKIP 1, LIMIT 2, one per line, with no WHERE.
\<close>

theorem build_cypher_clause_order:
  "build_cypher fstr q =
     (if q_filters q = [] then
        Inr (match_clause q @ return_clause q @ order_clause q @ skip_clause q @ limit_clause q)
      else
        (case where_text fstr q of
           Inl err \<Rightarrow> Inl err
         | Inr w \<Rightarrow>
             Inr (match_clause q @ newline # ''WHERE '' @ w @ return_clause q @ order_clause q
                    @ skip_clause q @ limit_clause q)))
   \<and> build_cypher fstr (limit_query (sort_query (new_query cl c g) ''n.age'') 2 1) =
       Inr (''MATCH (n:'' @ class_label (class_def cl c) @ '')'' @ newline # ''RETURN n''
              @ newline # ''ORDER BY n.age'' @ newline # ''SKIP 1'' @ newline # ''LIMIT 2'')"
proof
  show "build_cypher fstr q =
     (if q_filters q = [] then
        Inr (match_clause q @ return_clause q @ order_clause q @ skip_clause q @ limit_clause q)
      else
        (case where_text fstr q of
           Inl err \<Rightarrow> Inl err
         | Inr w \<Rightarrow>
             Inr (match_clause q @ newline # ''WHERE '' @ w @ return_clause q @ order_clause q
                    @ skip_clause q @ limit_clause q)))"
    by (simp add: build_cypher_def build_match_where_def match_clause_def return_clause_def
        order_clause_def skip_clause_def limit_clause_def where_text_def Let_def
        split: sum.splits option.splits)
  show "build_cypher fstr (limit_query (sort_query (new_query cl c g) ''n.age'') 2 1) =
       Inr (''MATCH (n:'' @ class_label (class_def cl c) @ '')'' @ newline # ''RETURN n''
              @ newline # ''ORDER BY n.age'' @ newline # ''SKIP 1'' @ newline # ''LIMIT 2'')"
    by (simp add: build_cypher_def build_match_where_def limit_query_def sort_query_def
        new_query_def Let_def str_int_1 str_int_2)
qed

subsection \<open>C5: \<open>one()\<close>\<close>

text \<open>
  Claim C5. For every query, \<open>one()\<close> raises \<open>EntityNotFoundError\<close> (the specification's
  NotFoundError) when the executed query yields zero results, raises
  \<open>MultipleResultsError\<close> when it yields more than one, and returns the single entity
  when it yields exactly one; an exception of the execution itself is passed on.
\<close>

theorem query_one_cases:
  "query_one rt cl q w =
     (case query_all rt cl q w of
        (Inl err, w') \<Rightarrow> (Inl err, w')
      | (Inr [], w') \<Rightarrow> (Inl EntityNotFoundError, w')
      | (Inr [m], w') \<Rightarrow> (Inr m, w')
      | (Inr (m # m' # ms), w') \<Rightarrow> (Inl MultipleResultsError, w'))"
  by (simp add: query_one_def split: prod.splits sum.splits list.splits)

subsection \<open>C6: a relationship of a detached entity\<close>

text \<open>
  Claim C6, as stated: accessing a declared relationship on an entity whose binding is
  \<open>None\<close> raises \<open>DetachedInstanceError\<close> whatever the rest of its state. It fails: the
  cache is consulted before the binding, so a person whose friends were cached before it
  was detached still answers with the cached list.
\<close>

theorem cached_relationship_counterexample:
  "age_db cached_detached_person = None \<and> age_graph cached_detached_person = None
   \<and> dict_has (age_refs cached_detached_person) ''friends''
   \<and> get_attribute demo_runtime demo_classes cached_detached_person ''friends'' []
       = (Inr (Related (Inl [])), cached_detached_person, [])"
  by (simp add: cached_detached_person_def demo_person_def mark_clean_def set_dirty_def
      set_refs_vals_def get_attribute_def INTERNAL_ATTRS_def starts_with_def dict_has_def
      person_class_def relationship_fields_def)

text \<open>
  Claim C6, amended: accessing a declared relationship slot (whose name starts with
  neither \<open>_\<close> nor \<open>model_\<close>) that has no cached value, on an entity whose database or
  graph is \<open>None\<close>, raises \<open>DetachedInstanceError\<close> and changes nothing, whatever the rest
  of the entity's state.
\<close>

theorem detached_relationship_raises:
  assumes "dict_get (age_refs e) item = Some rel"
    and "\<not> starts_with ''_'' item" and "\<not> starts_with ''model_'' item"
    and "dict_get (age_refs_vals e) item = None"
    and "age_db e = None \<or> age_graph e = None"
  shows "get_attribute rt cl e item w = (Inl DetachedInstanceError, e, w)"
proof -
  have "item \<notin> set INTERNAL_ATTRS"
    using assms(2) by (auto simp: INTERNAL_ATTRS_def starts_with_def)
  then show ?thesis
    using assms by (auto simp: get_attribute_def split: option.splits)
qed

theorem detached_relationship_raises_witness:
  "dict_get (age_refs demo_person) ''friends'' =
     Some \<lparr>rel_target = Inr ''tests.conftest.PersonWithRels'',
           rel_edge_label = ''KNOWS'', rel_direction = ''outbound'', rel_uselist = True,
           rel_cache = True, rel_depth = 1\<rparr>
   \<and> \<not> starts_with ''_'' ''friends'' \<and> \<not> starts_with ''model_'' ''friends''
   \<and> dict_get (age_refs_vals demo_person) ''friends'' = None
   \<and> age_db demo_person = None
   \<and> get_attribute demo_runtime demo_classes demo_person ''friends'' []
       = (Inl DetachedInstanceError, demo_person, [])"
proof -
  have a: "dict_get (age_refs demo_person) ''friends'' =
     Some \<lparr>rel_target = Inr ''tests.conftest.PersonWithRels'',
           rel_edge_label = ''KNOWS'', rel_direction = ''outbound'', rel_uselist = True,
           rel_cache = True, rel_depth = 1\<rparr>"
    by (simp add: demo_person_def person_class_def relationship_fields_def)
  have b: "\<not> starts_with ''_'' ''friends''" "\<not> starts_with ''model_'' ''friends''"
    by (simp_all add: starts_with_def)
  have c: "dict_get (age_refs_vals demo_person) ''friends'' = None" "age_db demo_person = None"
    by (simp_all add: demo_person_def)
  show ?thesis
    using detached_relationship_raises [OF a b c(1), of demo_runtime demo_classes "[]"] a b c
    by simp
qed

subsection \<open>C1: substituting bind variables\<close>

text \<open>
  Claim C1 says that each placeholder is replaced with the query-literal encoding of its
  value. The code hands that encoding to \<open>re\<close> as a replacement template, so its escaped
  backslashes are unescaped again: for the value \<open>a\b\<close>, whose literal is \<open>'a\\b'\<close>,
  the text \<open>n.path = $p\<close> becomes \<open>n.path = 'a\b'\<close>.
\<close>

theorem substitute_backslash_value:
  "format_cypher_value fstr (PStr [CHR ''a'', bslash, CHR ''b''])
     = [squote, CHR ''a'', bslash, bslash, CHR ''b'', squote]
   \<and> substitute_cypher_params fstr ''n.path = $p'' (Some [(''p'', PStr [CHR ''a'', bslash, CHR ''b''])])
       = Inr (''n.path = '' @ [squote, CHR ''a'', bslash, CHR ''b'', squote])"
  by code_simp

text \<open>The example of the claim holds: the longer name is substituted first.\<close>

lemma substitute_age_example:
  "substitute_cypher_params fstr ''$age < $age_max'' (Some [(''age'', PInt 20), (''age_max'', PInt 50)])
     = Inr ''20 < 50''"
  by code_simp

subsection \<open>C8: column names of \<open>Graph.cypher\<close>\<close>

text \<open>
  Claim C8 says that \<open>Graph.cypher\<close>, given column names, renames the positional keys
  \<open>col_0\<close>, \<open>col_1\<close> to them and unwraps the cells of shape \<open>{value: x}\<close>. The code of
  \<open>Graph.cypher\<close> hydrates the rows and returns them: for the row \<open>("w1", 5)\<close> and the
  names \<open>word\<close>, \<open>count\<close> the result keeps the positional keys and the wrappers.
\<close>

theorem cypher_columns_not_remapped:
  "graph_cypher word_count_runtime demo_classes demo_graph ''MATCH (w:Word) RETURN w.word, w.count''
     (Some [''word'', ''count'']) ''raw'' [] ()
   = (Inr [HRow [(''col_0'', HData (PDict [(''value'', PStr ''w1'')])),
                 (''col_1'', HData (PDict [(''value'', PInt 5)]))]], ())
   \<and> graph_cypher word_count_runtime demo_classes demo_graph ''MATCH (w:Word) RETURN w.word, w.count''
     (Some [''word'', ''count'']) ''raw'' [] ()
   \<noteq> (Inr [HRow [(''word'', HData (PStr ''w1'')), (''count'', HData (PInt 5))]], ())"
proof -
  have run: "graph_cypher word_count_runtime demo_classes demo_graph ''MATCH (w:Word) RETURN w.word, w.count''
     (Some [''word'', ''count'']) ''raw'' [] ()
   = (Inr [HRow [(''col_0'', HData (PDict [(''value'', PStr ''w1'')])),
                 (''col_1'', HData (PDict [(''value'', PInt 5)]))]], ())"
    by code_simp
  show ?thesis unfolding run by simp
qed

subsection \<open>C9: \<open>Query.delete\<close> counts first\<close>



subsection \<open>C10: what \<open>Graph.delete\<close> leaves alone\<close>

text \<open>
  Claim C10. For every persisted entity whose deletion statement executes,
  \<open>Graph.delete\<close> sets the graph id, the database and the graph of the entity to \<open>None\<close>
  and leaves everything else of it unchanged: its field values, its dirty set, its cached
  relationship values (and its class, name tables, label and endpoints). The entity it
  changes is the one the \<open>pre_delete\<close> handlers return, and the one it leaves is the one
  the \<open>post_delete\<close> handlers receive.
\<close>

theorem graph_delete_frame:
  assumes "age_graph_id e \<noteq> None"
    and "execute_cypher rt g (delete_cypher cl (dispatch cl regs e ''pre_delete'')) None None ''raw'' w
           = (Inr results, w')"
  shows "\<exists>e2. graph_delete rt cl regs g e w = (None, dispatch cl regs e2 ''post_delete'', w')
           \<and> age_graph_id e2 = None \<and> age_db e2 = None \<and> age_graph e2 = None
           \<and> e_attrs e2 = e_attrs (dispatch cl regs e ''pre_delete'')
           \<and> age_dirty e2 = age_dirty (dispatch cl regs e ''pre_delete'')
           \<and> age_refs_vals e2 = age_refs_vals (dispatch cl regs e ''pre_delete'')
           \<and> e_class e2 = e_class (dispatch cl regs e ''pre_delete'')
           \<and> age_fields e2 = age_fields (dispatch cl regs e ''pre_delete'')
           \<and> age_refs e2 = age_refs (dispatch cl regs e ''pre_delete'')
           \<and> age_label e2 = age_label (dispatch cl regs e ''pre_delete'')
           \<and> age_start_id e2 = age_start_id (dispatch cl regs e ''pre_delete'')
           \<and> age_end_id e2 = age_end_id (dispatch cl regs e ''pre_delete'')"
  using assms
  by (intro exI [of _ "set_graph None (set_db None (set_graph_id None (dispatch cl regs e ''pre_delete'')))"])
     (simp add: graph_delete_def Let_def)

theorem graph_delete_frame_witness:
  "age_graph_id persisted_person \<noteq> None
   \<and> execute_cypher demo_runtime demo_graph
        (delete_cypher demo_classes (dispatch demo_classes [] persisted_person ''pre_delete''))
        None None ''raw'' []
       = (Inr [], [cypher_sql ''g'' ''MATCH (n) WHERE id(n) = 7 DETACH DELETE n'' None])
   \<and> (\<exists>e2. graph_delete demo_runtime demo_classes [] demo_graph persisted_person []
              = (None, e2, [cypher_sql ''g'' ''MATCH (n) WHERE id(n) = 7 DETACH DELETE n'' None])
           \<and> age_graph_id e2 = None \<and> age_db e2 = None \<and> age_graph e2 = None
           \<and> e_attrs e2 = [(''name'', PStr ''Test''), (''age'', PInt 25)]
           \<and> age_dirty e2 = {''age''}
           \<and> age_refs_vals e2 = [(''friends'', Inl [])])"
proof -
  have pre: "dispatch demo_classes [] x ev = x" for x :: "(unit, nat) entity" and ev
    by (simp add: dispatch_def)
  have a: "age_graph_id persisted_person \<noteq> None"
    by (simp add: persisted_person_def)
  have b: "execute_cypher demo_runtime demo_graph
        (delete_cypher demo_classes (dispatch demo_classes [] persisted_person ''pre_delete''))
        None None ''raw'' []
       = (Inr [], [cypher_sql ''g'' ''MATCH (n) WHERE id(n) = 7 DETACH DELETE n'' None])"
    unfolding pre
    by (simp add: execute_cypher_plain demo_runtime_def demo_graph_def delete_cypher_def
        demo_classes_def person_class_def persisted_person_def str_graph_id_def str_int_7)
  have c: "e_attrs persisted_person = [(''name'', PStr ''Test''), (''age'', PInt 25)]"
    "age_dirty persisted_person = {''age''}" "age_refs_vals persisted_person = [(''friends'', Inl [])]"
    by (simp_all add: persisted_person_def demo_person_def)
  show ?thesis
    using graph_delete_frame [OF a b] a b c by (auto simp: pre)
qed

subsection \<open>C7: tags and the order of the attempts\<close>

text \<open>
  Claim C7, as stated: the decoder strips exactly one trailing \<open>::tag\<close> and then attempts
  a JSON parse, an integer parse, a float parse, and otherwise returns the stripped text
  under \<open>raw\<close>. It fails where a tag follows a closing bracket or brace: the code removes
  every such tag and then one trailing tag. A record with two tags, \<open>{}::vertex::path\<close>,
  and a path, \<open>[{}::vertex]::path\<close>, are decoded as JSON by the code, while one suffix
  less leaves a text that is not JSON and comes back under \<open>raw\<close>.
\<close>

theorem strips_more_than_one_suffix_counterexample:
  "strip_agtype_suffixes ''{}::vertex::path'' = ''{}''
   \<and> strip_one_suffix ''{}::vertex::path'' = ''{}::vertex''
   \<and> parse_agtype_result no_float (CStr ''{}::vertex::path'') ''raw'' = []
   \<and> decode_as_specified no_float ''{}::vertex::path'' = [(''raw'', PStr ''{}::vertex'')]
   \<and> strip_agtype_suffixes ''[{}::vertex]::path'' = ''[{}]''
   \<and> strip_one_suffix ''[{}::vertex]::path'' = ''[{}::vertex]''
   \<and> parse_agtype_result no_float (CStr ''[{}::vertex]::path'') ''raw'' = [(''value'', PList [PDict []])]
   \<and> decode_as_specified no_float ''[{}::vertex]::path'' = [(''raw'', PStr ''[{}::vertex]'')]"
  by code_simp

text \<open>
  Claim C7, amended. The decoder trims the text (\<open>strip\<close>: the white space at both ends
  goes), removes the tag after every closing bracket or brace that has one (scanning from
  the left, each tag once), removes the trailing tag when there is one (\<open>::\<close> followed by
  one or more word characters that run to the end of the text, or to a newline that ends
  it; there is at most one, and a text without one is left as it is), and trims again.
  On the text \<open>t\<close> that is left it attempts, in order: a JSON parse when \<open>t\<close> starts with
  a brace, a bracket or a quote or is \<open>null\<close>, \<open>true\<close> or \<open>false\<close>; an integer parse; a
  float parse; and otherwise it returns \<open>t\<close> verbatim under \<open>raw\<close>.
\<close>

theorem decode_attempts_in_order:
  "(json_gate (strip_agtype_suffixes val) \<and> json_loads pf (strip_agtype_suffixes val) = Some j
      \<longrightarrow> parse_agtype_result pf (CStr val) return_type = decoded_json j)
   \<and> ((\<not> json_gate (strip_agtype_suffixes val) \<or> json_loads pf (strip_agtype_suffixes val) = None)
        \<and> py_int (strip_agtype_suffixes val) = Some n
      \<longrightarrow> parse_agtype_result pf (CStr val) return_type = [(''value'', PInt n)])
   \<and> ((\<not> json_gate (strip_agtype_suffixes val) \<or> json_loads pf (strip_agtype_suffixes val) = None)
        \<and> py_int (strip_agtype_suffixes val) = None \<and> pf (strip_agtype_suffixes val) = Some x
      \<longrightarrow> parse_agtype_result pf (CStr val) return_type = [(''value'', PFloat x)])
   \<and> ((\<not> json_gate (strip_agtype_suffixes val) \<or> json_loads pf (strip_agtype_suffixes val) = None)
        \<and> py_int (strip_agtype_suffixes val) = None \<and> pf (strip_agtype_suffixes val) = None
      \<longrightarrow> parse_agtype_result pf (CStr val) return_type = [(''raw'', PStr (strip_agtype_suffixes val))])
   \<and> strip_agtype_suffixes val = py_strip (strip_trailing_tag (strip_bracket_tags (py_strip val)))
   \<and> (\<not> has_bracket_tag p \<and> (b = CHR '']'' \<or> b = CHR ''}'') \<and> w \<noteq> [] \<and> list_all is_word_char w
        \<and> (q = [] \<or> \<not> is_word_char (hd q))
      \<longrightarrow> strip_bracket_tags (p @ b # ''::'' @ w @ q) = p @ b # strip_bracket_tags q)
   \<and> (\<not> has_bracket_tag s \<longrightarrow> strip_bracket_tags s = s)
   \<and> (strip_trailing_tag s = s \<or>
       (\<exists>p' w' u. s = p' @ ''::'' @ w' @ u \<and> w' \<noteq> [] \<and> list_all is_word_char w' \<and> at_text_end u
            \<and> strip_trailing_tag s = p' @ u))
   \<and> (tag \<noteq> [] \<and> list_all is_word_char tag \<and> at_text_end e
      \<longrightarrow> strip_trailing_tag (front @ ''::'' @ tag @ e) = front @ e)
   \<and> (list_all is_py_space lead \<and> list_all is_py_space trail
        \<and> (m = [] \<or> (\<not> is_py_space (hd m) \<and> \<not> is_py_space (last m)))
      \<longrightarrow> py_strip (lead @ m @ trail) = m)
   \<and> (json_gate t \<longleftrightarrow>
        (t \<noteq> [] \<and> (hd t = CHR ''{'' \<or> hd t = CHR ''['' \<or> hd t = dquote))
        \<or> t = ''null'' \<or> t = ''true'' \<or> t = ''false'')"
proof -
  have attempts: "parse_agtype_result pf (CStr val) return_type = decode_attempts pf (strip_agtype_suffixes val)"
    by (auto simp: parse_agtype_result_def parse_agtype_text_def decode_attempts_def decoded_json_def
        Let_def split: option.splits pyval.splits)
  have order: "(json_gate (strip_agtype_suffixes val) \<and> json_loads pf (strip_agtype_suffixes val) = Some j
      \<longrightarrow> parse_agtype_result pf (CStr val) return_type = decoded_json j)
   \<and> ((\<not> json_gate (strip_agtype_suffixes val) \<or> json_loads pf (strip_agtype_suffixes val) = None)
        \<and> py_int (strip_agtype_suffixes val) = Some n
      \<longrightarrow> parse_agtype_result pf (CStr val) return_type = [(''value'', PInt n)])
   \<and> ((\<not> json_gate (strip_agtype_suffixes val) \<or> json_loads pf (strip_agtype_suffixes val) = None)
        \<and> py_int (strip_agtype_suffixes val) = None \<and> pf (strip_agtype_suffixes val) = Some x
      \<longrightarrow> parse_agtype_result pf (CStr val) return_type = [(''value'', PFloat x)])
   \<and> ((\<not> json_gate (strip_agtype_suffixes val) \<or> json_loads pf (strip_agtype_suffixes val) = None)
        \<and> py_int (strip_agtype_suffixes val) = None \<and> pf (strip_agtype_suffixes val) = None
      \<longrightarrow> parse_agtype_result pf (CStr val) return_type = [(''raw'', PStr (strip_agtype_suffixes val))])"
    unfolding attempts by (auto simp: decode_attempts_def split: option.splits)
  have strip: "strip_agtype_suffixes val = py_strip (strip_trailing_tag (strip_bracket_tags (py_strip val)))"
    by (simp add: strip_agtype_suffixes_def)
  have brackets: "\<not> has_bracket_tag p \<and> (b = CHR '']'' \<or> b = CHR ''}'') \<and> w \<noteq> [] \<and> list_all is_word_char w
        \<and> (q = [] \<or> \<not> is_word_char (hd q))
      \<longrightarrow> strip_bracket_tags (p @ b # ''::'' @ w @ q) = p @ b # strip_bracket_tags q"
    using strip_bracket_tags_tag [of p b w q] by blast
  have untagged: "\<not> has_bracket_tag s \<longrightarrow> strip_bracket_tags s = s"
    using strip_bracket_tags_id [of s] by blast
  have once: "strip_trailing_tag s = s \<or>
       (\<exists>p' w' u. s = p' @ ''::'' @ w' @ u \<and> w' \<noteq> [] \<and> list_all is_word_char w' \<and> at_text_end u
            \<and> strip_trailing_tag s = p' @ u)"
    by (rule strip_trailing_tag_once)
  have removed: "tag \<noteq> [] \<and> list_all is_word_char tag \<and> at_text_end e
      \<longrightarrow> strip_trailing_tag (front @ ''::'' @ tag @ e) = front @ e"
    using strip_trailing_tag_removes [of tag e front] by blast
  have trims: "list_all is_py_space lead \<and> list_all is_py_space trail
        \<and> (m = [] \<or> (\<not> is_py_space (hd m) \<and> \<not> is_py_space (last m)))
      \<longrightarrow> py_strip (lead @ m @ trail) = m"
    using py_strip_trims [of lead trail m] by blast
  have gate: "json_gate t \<longleftrightarrow>
        (t \<noteq> [] \<and> (hd t = CHR ''{'' \<or> hd t = CHR ''['' \<or> hd t = dquote))
        \<or> t = ''null'' \<or> t = ''true'' \<or> t = ''false''"
    by (cases t) (simp_all add: json_gate_def)
  from order strip brackets untagged once removed trims gate show ?thesis by blast
qed

theorem decode_attempts_in_order_witness:
  "json_gate (strip_agtype_suffixes ''[1, 2]::x'') \<and> json_loads demo_float (strip_agtype_suffixes ''[1, 2]::x'') = Some (PList [PInt 1, PInt 2])
   \<and> parse_agtype_result demo_float (CStr ''[1, 2]::x'') ''raw'' = [(''value'', PList [PInt 1, PInt 2])]
   \<and> \<not> json_gate (strip_agtype_suffixes '' 42::int'') \<and> py_int (strip_agtype_suffixes '' 42::int'') = Some 42
   \<and> parse_agtype_result demo_float (CStr '' 42::int'') ''raw'' = [(''value'', PInt 42)]
   \<and> \<not> json_gate (strip_agtype_suffixes ''1.5::float'') \<and> py_int (strip_agtype_suffixes ''1.5::float'') = None
   \<and> demo_float (strip_agtype_suffixes ''1.5::float'') = Some ()
   \<and> parse_agtype_result demo_float (CStr ''1.5::float'') ''raw'' = [(''value'', PFloat ())]
   \<and> \<not> json_gate (strip_agtype_suffixes ''a::b::c'') \<and> py_int (strip_agtype_suffixes ''a::b::c'') = None
   \<and> demo_float (strip_agtype_suffixes ''a::b::c'') = None
   \<and> parse_agtype_result demo_float (CStr ''a::b::c'') ''raw'' = [(''raw'', PStr ''a::b'')]
   \<and> \<not> has_bracket_tag ''[{'' \<and> list_all is_word_char ''vertex'' \<and> \<not> is_word_char (hd '', {}]'')
   \<and> strip_bracket_tags (''[{'' @ CHR ''}'' # ''::'' @ ''vertex'' @ '', {}]'') = ''[{'' @ CHR ''}'' # strip_bracket_tags '', {}]''
   \<and> \<not> has_bracket_tag ''{}:x'' \<and> strip_bracket_tags ''{}:x'' = ''{}:x''
   \<and> list_all is_word_char ''int'' \<and> at_text_end [newline]
   \<and> strip_trailing_tag (''42'' @ ''::'' @ ''int'' @ [newline]) = ''42'' @ [newline]
   \<and> list_all is_py_space '' '' \<and> list_all is_py_space [newline]
   \<and> \<not> is_py_space (hd ''42::int'') \<and> \<not> is_py_space (last ''42::int'')
   \<and> py_strip ('' '' @ ''42::int'' @ [newline]) = ''42::int''
   \<and> json_gate ''null'' \<and> \<not> json_gate ''42''"
proof -
  have g1: "json_gate (strip_agtype_suffixes ''[1, 2]::x'')"
    and j1: "json_loads demo_float (strip_agtype_suffixes ''[1, 2]::x'') = Some (PList [PInt 1, PInt 2])"
    and d1: "decoded_json (PList [PInt 1, PInt 2 :: unit pyval]) = [(''value'', PList [PInt 1, PInt 2])]"
    by code_simp+
  have g2: "\<not> json_gate (strip_agtype_suffixes '' 42::int'')"
    and i2: "py_int (strip_agtype_suffixes '' 42::int'') = Some 42"
    by code_simp+
  have g3: "\<not> json_gate (strip_agtype_suffixes ''1.5::float'')"
    and i3: "py_int (strip_agtype_suffixes ''1.5::float'') = None"
    and f3: "demo_float (strip_agtype_suffixes ''1.5::float'') = Some ()"
    by code_simp+
  have g4: "\<not> json_gate (strip_agtype_suffixes ''a::b::c'')"
    and i4: "py_int (strip_agtype_suffixes ''a::b::c'') = None"
    and f4: "demo_float (strip_agtype_suffixes ''a::b::c'') = None"
    and s4: "strip_agtype_suffixes ''a::b::c'' = ''a::b''"
    by code_simp+
  have b5: "\<not> has_bracket_tag ''[{''" "list_all is_word_char ''vertex''" "\<not> is_word_char (hd '', {}]'')"
    by code_simp+
  have b6: "\<not> has_bracket_tag ''{}:x''"
    by code_simp
  have t7: "list_all is_word_char ''int''" "at_text_end [newline]"
    by code_simp+
  have p8: "list_all is_py_space '' ''" "list_all is_py_space [newline]"
    "\<not> is_py_space (hd ''42::int'')" "\<not> is_py_space (last ''42::int'')"
    by code_simp+
  note A = decode_attempts_in_order [where val = "''[1, 2]::x''" and pf = demo_float
      and j = "PList [PInt 1, PInt 2]" and return_type = "''raw''" and n = 0 and x = "()"
      and p = "''[{''" and b = "CHR ''}''" and w = "''vertex''" and q = "'', {}]''" and s = "''{}:x''"
      and tag = "''int''" and e = "[newline]" and front = "''42''"
      and lead = "'' ''" and trail = "[newline]" and m = "''42::int''" and t = "''null''"]
  note B = decode_attempts_in_order [where val = "'' 42::int''" and pf = demo_float
      and j = PNone and return_type = "''raw''" and n = 42 and x = "()"
      and p = "[]" and b = "CHR ''}''" and w = "[]" and q = "[]" and s = "[]"
      and tag = "[]" and e = "[]" and front = "[]"
      and lead = "[]" and trail = "[]" and m = "[]" and t = "''42''"]
  note C = decode_attempts_in_order [where val = "''1.5::float''" and pf = demo_float
      and j = PNone and return_type = "''raw''" and n = 0 and x = "()"
      and p = "[]" and b = "CHR ''}''" and w = "[]" and q = "[]" and s = "[]"
      and tag = "[]" and e = "[]" and front = "[]"
      and lead = "[]" and trail = "[]" and m = "[]" and t = "[]"]
  note D = decode_attempts_in_order [where val = "''a::b::c''" and pf = demo_float
      and j = PNone and return_type = "''raw''" and n = 0 and x = "()"
      and p = "[]" and b = "CHR ''}''" and w = "[]" and q = "[]" and s = "[]"
      and tag = "[]" and e = "[]" and front = "[]"
      and lead = "[]" and trail = "[]" and m = "[]" and t = "[]"]
  have r1: "parse_agtype_result demo_float (CStr ''[1, 2]::x'') ''raw'' = [(''value'', PList [PInt 1, PInt 2])]"
    using A g1 j1 d1 by simp
  have r5: "strip_bracket_tags (''[{'' @ CHR ''}'' # ''::'' @ ''vertex'' @ '', {}]'') = ''[{'' @ CHR ''}'' # strip_bracket_tags '', {}]''"
    using A b5 by simp
  have r6: "strip_bracket_tags ''{}:x'' = ''{}:x''"
    using A b6 by simp
  have r7: "strip_trailing_tag (''42'' @ ''::'' @ ''int'' @ [newline]) = ''42'' @ [newline]"
    using A t7 by simp
  have r8: "py_strip ('' '' @ ''42::int'' @ [newline]) = ''42::int''"
    using A p8 by simp
  have r9: "json_gate ''null''"
    using A by simp
  have r10: "\<not> json_gate ''42''"
    using B by (simp add: dquote_def)
  have r2: "parse_agtype_result demo_float (CStr '' 42::int'') ''raw'' = [(''value'', PInt 42)]"
    using B g2 i2 by simp
  have r3: "parse_agtype_result demo_float (CStr ''1.5::float'') ''raw'' = [(''value'', PFloat ())]"
    using C g3 i3 f3 by simp
  have r4: "parse_agtype_result demo_float (CStr ''a::b::c'') ''raw'' = [(''raw'', PStr ''a::b'')]"
    using D g4 i4 f4 s4 by simp
  show ?thesis
    using g1 j1 r1 g2 i2 r2 g3 i3 f3 r3 g4 i4 f4 r4 b5 r5 b6 r6 t7 r7 p8 r8 r9 r10 by simp
qed

subsection \<open>C2: decoding an encoded value\<close>

text \<open>
  Claim C2, as stated: for every supported value \<open>v\<close>, decoding the agtype encoding of
  \<open>v\<close> gives a value equivalent to \<open>v\<close>. It fails for a map with the keys \<open>id\<close> and
  \<open>properties\<close>, which the decoder takes for a vertex or an edge: it comes back with
  \<open>id\<close> renamed to \<open>graph_id\<close>. It also fails for a string in which a closing bracket or
  brace is followed by \<open>::\<close> and a word character, which loses the part the decoder takes
  for a type tag (\<open>a}::b\<close> comes back as \<open>a}\<close>); for a map with a key that needs
  escaping, which is written as it is (the key \<open>"\<close> gives a text that is not JSON and
  comes back under \<open>raw\<close>); and for a list that holds an infinite float, written \<open>inf\<close>,
  which JSON does not know.
\<close>

theorem agtype_round_trip_counterexample:
  "parse_agtype_result no_float
        (CStr (to_agtype_value demo_fstr (PDict [(''id'', PInt 1), (''properties'', PDict [])]))) ''raw''
     = [(''properties'', PDict []), (''graph_id'', PInt 1)]
   \<and> parse_agtype_result no_float (CStr (to_agtype_value demo_fstr (PStr ''a}::b''))) ''raw''
     = [(''value'', PStr ''a}'')]
   \<and> parse_agtype_result no_float (CStr (to_agtype_value demo_fstr (PDict [([dquote], PInt 1)]))) ''raw''
     = [(''raw'', PStr (''{'' @ [dquote, dquote, dquote] @ '': 1}''))]
   \<and> parse_agtype_result inf_float (CStr (to_agtype_value inf_fstr (PFloat ()))) ''raw''
     = [(''value'', PFloat ())]
   \<and> parse_agtype_result inf_float (CStr (to_agtype_value inf_fstr (PList [PFloat ()]))) ''raw''
     = [(''raw'', PStr ''[inf]'')]"
  by code_simp

text \<open>
  Claim C2, amended. Let \<open>v\<close> be built from \<open>None\<close>, booleans, integers, floats, strings,
  lists and string-keyed maps, where every float is one whose text is a JSON number that
  \<open>float()\<close> reads back (every finite float), no string or key contains a closing bracket
  or brace followed by \<open>::\<close> and a word character, and no key contains a quote, a
  backslash or a control character; and let neither \<open>v\<close> nor, when \<open>v\<close> is a list, an
  item of \<open>v\<close> be a map with both keys \<open>id\<close> and \<open>properties\<close>. Then decoding the agtype
  encoding of \<open>v\<close> gives \<open>v\<close> itself when \<open>v\<close> is a map and \<open>{value: v}\<close> otherwise.
\<close>

theorem agtype_round_trip:
  assumes "plain_value fstr pf v" and "unnormalized v"
  shows "parse_agtype_result pf (CStr (to_agtype_value fstr v)) return_type = wrapped v"
  using parse_encoding [OF assms(1), of return_type] decoded_json_unnormalized [OF assms(2)]
  by simp

theorem agtype_round_trip_witness:
  "plain_value demo_fstr demo_float demo_value \<and> unnormalized demo_value
   \<and> parse_agtype_result demo_float (CStr (to_agtype_value demo_fstr demo_value)) ''raw''
       = wrapped demo_value"
proof -
  have a: "plain_value demo_fstr demo_float demo_value" by code_simp
  have b: "unnormalized demo_value" by code_simp
  show ?thesis
    using agtype_round_trip [OF a b, of "''raw''"] a b by simp
qed

end
